theory Spec2Isabelle
  imports Complex_Main "HOL-Library.Log_Nat"
begin

section \<open>JavaScript strings\<close>

text \<open>
  A JavaScript string is a sequence of UTF-16 code units; a code unit is modelled by its
  number. \<open>js\<close> turns an ASCII literal into such a sequence.
\<close>

type_synonym jschar = int
type_synonym jsstring = "jschar list"

definition js :: "string \<Rightarrow> jsstring" where
  "js w = map of_char w"

text \<open>The line terminators of ECMAScript: LF, CR, LS and PS.\<close>

definition isLineTerminator :: "jschar \<Rightarrow> bool" where
  "isLineTerminator c = (c = 10 \<or> c = 13 \<or> c = 8232 \<or> c = 8233)"

text \<open>
  White space as \<open>String.prototype.trim\<close> and the class \<open>\s\<close> see it: TAB, VT, FF, SP,
  NBSP, the space separators of Unicode, the byte order mark and the line terminators.
\<close>

definition isWhiteSpace :: "jschar \<Rightarrow> bool" where
  "isWhiteSpace c =
     (c = 9 \<or> c = 11 \<or> c = 12 \<or> c = 32 \<or> c = 160 \<or> c = 5760
      \<or> (8192 \<le> c \<and> c \<le> 8202) \<or> c = 8239 \<or> c = 8287 \<or> c = 12288 \<or> c = 65279
      \<or> isLineTerminator c)"

definition isDigit :: "jschar \<Rightarrow> bool" where
  "isDigit c = (48 \<le> c \<and> c \<le> 57)"

definition trim :: "jsstring \<Rightarrow> jsstring" where
  "trim s = rev (dropWhile isWhiteSpace (rev (dropWhile isWhiteSpace s)))"

definition substring :: "jsstring \<Rightarrow> nat \<Rightarrow> nat \<Rightarrow> jsstring" where
  "substring s a b = take (b - a) (drop a s)"

text \<open>\<open>s.split('\n')\<close>: splitting at every occurrence of one code unit.\<close>

fun splitAt :: "jschar \<Rightarrow> jsstring \<Rightarrow> jsstring \<Rightarrow> jsstring list" where
  "splitAt sep cur [] = [cur]"
| "splitAt sep cur (c # cs) =
     (if c = sep then cur # splitAt sep [] cs else splitAt sep (cur @ [c]) cs)"

section \<open>Regular expressions\<close>

text \<open>
  The patterns of the source use literals, character classes, quantifiers over a single
  character class (greedy or lazy, with no upper bound), sequences, one alternation,
  capture groups outside every quantifier, lookahead and the anchors \<open>^\<close> and \<open>$\<close>.
\<close>

datatype cls =
    Digit                \<comment> \<open>\<open>\d\<close>\<close>
  | Space                \<comment> \<open>\<open>\s\<close>\<close>
  | Dot                  \<comment> \<open>\<open>.\<close> without the flag \<open>s\<close>\<close>
  | AnyChar              \<comment> \<open>\<open>[\s\S]\<close>, and \<open>.\<close> under the flag \<open>s\<close>\<close>
  | OneOf jsstring       \<comment> \<open>\<open>[ABCD]\<close>\<close>

fun cls_mem :: "cls \<Rightarrow> jschar \<Rightarrow> bool" where
  "cls_mem Digit c = isDigit c"
| "cls_mem Space c = isWhiteSpace c"
| "cls_mem Dot c = (\<not> isLineTerminator c)"
| "cls_mem AnyChar c = True"
| "cls_mem (OneOf w) c = (c \<in> set w)"

datatype regex =
    Lit jsstring             \<comment> \<open>a literal text\<close>
  | Cls cls                  \<comment> \<open>one character of a class\<close>
  | Rep bool nat cls         \<comment> \<open>a class repeated at least \<open>n\<close> times; greedy when the flag is set\<close>
  | Seq regex regex
  | Alt regex regex
  | Grp nat regex            \<comment> \<open>capture group number \<open>n\<close>\<close>
  | Look regex               \<comment> \<open>\<open>(?=...)\<close>\<close>
  | Bol bool                 \<comment> \<open>\<open>^\<close>; the flag is the flag \<open>m\<close> of the pattern\<close>
  | Eol bool                 \<comment> \<open>\<open>$\<close>; the flag is the flag \<open>m\<close> of the pattern\<close>

type_synonym captures = "nat \<rightharpoonup> (nat \<times> nat)"
type_synonym mstate = "nat \<times> captures"

text \<open>
  The backtracking matcher as a list of successes: \<open>bt r s (i, c)\<close> lists, in the order
  in which a backtracking engine tries them, the end positions (and captures) of the
  matches of \<open>r\<close> that start at position \<open>i\<close> of \<open>s\<close>. The engine's answer is the head.
\<close>

fun bt :: "regex \<Rightarrow> jsstring \<Rightarrow> mstate \<Rightarrow> mstate list" where
  "bt (Lit w) s (i, c) =
     (if take (length w) (drop i s) = w then [(i + length w, c)] else [])"
| "bt (Cls k) s (i, c) =
     (if i < length s \<and> cls_mem k (s ! i) then [(Suc i, c)] else [])"
| "bt (Rep greedy m k) s (i, c) =
     (let n = length (takeWhile (cls_mem k) (drop i s));
          counts = (if greedy then rev [m..<Suc n] else [m..<Suc n])
      in map (\<lambda>j. (i + j, c)) counts)"
| "bt (Seq a b) s st = concat (map (bt b s) (bt a s st))"
| "bt (Alt a b) s st = bt a s st @ bt b s st"
| "bt (Grp g r) s (i, c) = map (\<lambda>(j, c'). (j, c'(g \<mapsto> (i, j)))) (bt r s (i, c))"
| "bt (Look r) s (i, c) = (case bt r s (i, c) of [] \<Rightarrow> [] | (j, c') # _ \<Rightarrow> [(i, c')])"
| "bt (Bol ml) s (i, c) =
     (if i = 0 \<or> (ml \<and> i \<le> length s \<and> isLineTerminator (s ! (i - 1))) then [(i, c)] else [])"
| "bt (Eol ml) s (i, c) =
     (if i = length s \<or> (ml \<and> i < length s \<and> isLineTerminator (s ! i)) then [(i, c)] else [])"

text \<open>A match: where it starts, where it ends, and what the groups captured.\<close>

record rmatch =
  m_start :: nat
  m_end :: nat
  m_caps :: captures

definition matchAt :: "regex \<Rightarrow> jsstring \<Rightarrow> nat \<Rightarrow> rmatch option" where
  "matchAt r s i =
     (case bt r s (i, Map.empty) of
        [] \<Rightarrow> None
      | (e, c) # _ \<Rightarrow> Some \<lparr>m_start = i, m_end = e, m_caps = c\<rparr>)"

primrec firstMatch :: "regex \<Rightarrow> jsstring \<Rightarrow> nat list \<Rightarrow> rmatch option" where
  "firstMatch r s [] = None"
| "firstMatch r s (i # is) =
     (case matchAt r s i of Some m \<Rightarrow> Some m | None \<Rightarrow> firstMatch r s is)"

text \<open>
  \<open>RegExp.prototype.exec\<close> with \<open>lastIndex = i\<close>: the leftmost match starting at
  \<open>i\<close> or later; no start position beyond the end of the input is tried.
\<close>

definition execFrom :: "regex \<Rightarrow> jsstring \<Rightarrow> nat \<Rightarrow> rmatch option" where
  "execFrom r s i = firstMatch r s [i..<Suc (length s)]"

text \<open>\<open>s.match(r)\<close> for a pattern without the flag \<open>g\<close>, and \<open>r.test(s)\<close>.\<close>

definition match :: "regex \<Rightarrow> jsstring \<Rightarrow> rmatch option" where
  "match r s = execFrom r s 0"

definition test :: "regex \<Rightarrow> jsstring \<Rightarrow> bool" where
  "test r s = (match r s \<noteq> None)"

text \<open>The text of capture group \<open>g\<close> of a match (\<open>m[g]\<close>); the empty text when unset.\<close>

definition matchGroup :: "jsstring \<Rightarrow> rmatch \<Rightarrow> nat \<Rightarrow> jsstring" where
  "matchGroup s m g = (case m_caps m g of None \<Rightarrow> [] | Some (a, b) \<Rightarrow> substring s a b)"

text \<open>
  \<open>s.split(r)\<close> as ECMAScript defines it, for a separator without capture groups:
  \<open>p\<close> is the start of the piece being collected, \<open>q\<close> the position where the separator
  is tried next. A match that ends at \<open>p\<close> is passed over.
\<close>

function splitLoop :: "regex \<Rightarrow> jsstring \<Rightarrow> nat \<Rightarrow> nat \<Rightarrow> jsstring list \<Rightarrow> jsstring list" where
  "splitLoop r s p q acc =
     (if q < length s then
        (case matchAt r s q of
           None \<Rightarrow> splitLoop r s p (Suc q) acc
         | Some m \<Rightarrow>
             (let e = min (m_end m) (length s) in
              if e = p then splitLoop r s p (Suc q) acc
              else splitLoop r s e e (acc @ [substring s p q])))
      else acc @ [substring s p (length s)])"
  by pat_completeness auto
termination
proof -
  have ge: "i \<le> j" if "(j, c') \<in> set (bt r s (i, c))" for r s i c j c'
    using that
  proof (induction r arbitrary: i c j c')
    case (Seq a b)
    then show ?case by (fastforce dest: order_trans)
  next
    case (Look r)
    then show ?case by (auto split: list.splits)
  qed (auto split: if_splits simp: Let_def)
  have m_ge: "q \<le> m_end m" if "matchAt r s q = Some m" for r s q m
  proof (cases "bt r s (q, Map.empty)")
    case Nil
    with that show ?thesis by (simp add: matchAt_def)
  next
    case (Cons x xs)
    obtain e c where x: "x = (e, c)" by (cases x)
    have "(e, c) \<in> set (bt r s (q, Map.empty))" using Cons x by simp
    then have "q \<le> e" by (rule ge)
    with that Cons x show ?thesis by (auto simp: matchAt_def)
  qed
  show ?thesis
    by (relation "measures [\<lambda>(r, s, p, q, acc). length s - q,
                            \<lambda>(r, s, p, q, acc). if p = q then 0 else 1]")
       (auto dest!: m_ge split: if_splits)
qed

declare splitLoop.simps [simp del]

definition split :: "regex \<Rightarrow> jsstring \<Rightarrow> jsstring list" where
  "split r s =
     (if s = [] then (if matchAt r s 0 \<noteq> None then [] else [s])
      else splitLoop r s 0 0 [])"

section \<open>The MCQ extractor\<close>

record MCQQuestion =
  qid :: nat                              \<comment> \<open>the field \<open>id\<close>\<close>
  question :: jsstring
  options :: "jsstring \<rightharpoonup> jsstring"    \<comment> \<open>an object: its keys and their values\<close>
  correctAnswer :: jsstring
  explanation :: jsstring

fun seqs :: "regex list \<Rightarrow> regex" where
  "seqs [] = Lit []"
| "seqs [r] = r"
| "seqs (r # rs) = Seq r (seqs rs)"

text \<open>The object literal \<open>{A: '', B: '', C: '', D: ''}\<close>.\<close>

definition emptyOptions :: "jsstring \<rightharpoonup> jsstring" where
  "emptyOptions = [js ''A'' \<mapsto> [], js ''B'' \<mapsto> [], js ''C'' \<mapsto> [], js ''D'' \<mapsto> []]"

text \<open>\<open>/\n(?=\d+\.\s\*\*)/g\<close>\<close>

definition questionSplitter :: regex where
  "questionSplitter =
     Seq (Lit [10]) (Look (seqs [Rep True 1 Digit, Lit (js ''.''), Cls Space, Lit (js ''**'')]))"

text \<open>\<open>/^\d+\.\s\*\*/\<close>\<close>

definition blockHead :: regex where
  "blockHead = seqs [Bol False, Rep True 1 Digit, Lit (js ''.''), Cls Space, Lit (js ''**'')]"

text \<open>\<open>/^\d+\.\s\*\*(.+?)\*\*/\<close>\<close>

definition questionRegex :: regex where
  "questionRegex =
     seqs [Bol False, Rep True 1 Digit, Lit (js ''.''), Cls Space, Lit (js ''**''),
           Grp 1 (Rep False 1 Dot), Lit (js ''**'')]"

text \<open>\<open>/^\s*\(([ABCD])\)\s(.+)$/gm\<close>\<close>

definition optionRegex :: regex where
  "optionRegex =
     seqs [Bol True, Rep True 0 Space, Lit (js ''(''), Grp 1 (Cls (OneOf (js ''ABCD''))),
           Lit (js '')''), Cls Space, Grp 2 (Rep True 1 Dot), Eol True]"

text \<open>\<open>/\*\*Correct Answer:\s*\(([ABCD])\)\*\*/\<close>\<close>

definition correctAnswerRegex :: regex where
  "correctAnswerRegex =
     seqs [Lit (js ''**Correct Answer:''), Rep True 0 Space, Lit (js ''(''),
           Grp 1 (Cls (OneOf (js ''ABCD''))), Lit (js '')**'')]"

text \<open>\<open>/\*\*Correct Answer:\s*\([ABCD]\)\*\*\s*([\s\S]*)$/\<close>\<close>

definition explanationRegex :: regex where
  "explanationRegex =
     seqs [Lit (js ''**Correct Answer:''), Rep True 0 Space, Lit (js ''(''),
           Cls (OneOf (js ''ABCD'')), Lit (js '')**''), Rep True 0 Space,
           Grp 1 (Rep True 0 AnyChar), Eol False]"

definition questionBlocks :: "jsstring \<Rightarrow> jsstring list" where
  "questionBlocks rawOutput =
     filter (\<lambda>block. match blockHead (trim block) \<noteq> None) (split questionSplitter rawOutput)"

text \<open>
  The loop \<open>while ((match = optionRegex.exec(block)) !== null)\<close>. The pattern has the
  flag \<open>g\<close>, so each search starts at \<open>lastIndex\<close>, the end of the match before. A
  match that does not move \<open>lastIndex\<close> forward would be found again for ever: then
  the loop does not return, which is the value \<open>None\<close>.
\<close>

function optionLoop ::
  "jsstring \<Rightarrow> nat \<Rightarrow> (jsstring \<rightharpoonup> jsstring) \<Rightarrow> nat \<Rightarrow> ((jsstring \<rightharpoonup> jsstring) \<times> nat) option" where
  "optionLoop block lastIndex opts foundOptions =
     (case execFrom optionRegex block lastIndex of
        None \<Rightarrow> Some (opts, foundOptions)
      | Some m \<Rightarrow>
          if m_end m \<le> lastIndex then None
          else optionLoop block (m_end m)
                 (opts(matchGroup block m 1 \<mapsto> trim (matchGroup block m 2))) (Suc foundOptions))"
  by pat_completeness auto
termination
proof -
  have inside: "i \<le> length s" if "execFrom r s i = Some m" for r s i m
    using that by (cases "i \<le> length s") (auto simp: execFrom_def)
  show ?thesis
    by (relation "measure (\<lambda>(block, lastIndex, opts, foundOptions). Suc (length block) - lastIndex)")
       (auto dest!: inside)
qed

declare optionLoop.simps [simp del]

text \<open>
  The body of \<open>questionBlocks.forEach((block, index) => ...)\<close>: it returns the array
  \<open>questions\<close> as the call leaves it. No statement of the body can throw, so the
  \<open>catch\<close> branch is never taken.
\<close>

definition parseQuestionBlock ::
  "jsstring \<Rightarrow> nat \<Rightarrow> MCQQuestion list \<Rightarrow> MCQQuestion list option" where
  "parseQuestionBlock block index questions =
     (case match questionRegex block of
        None \<Rightarrow> Some questions
      | Some questionMatch \<Rightarrow>
          (case optionLoop block 0 emptyOptions 0 of
             None \<Rightarrow> None
           | Some (opts, foundOptions) \<Rightarrow>
               if foundOptions \<noteq> 4 then Some questions
               else
                 (case match correctAnswerRegex block of
                    None \<Rightarrow> Some questions
                  | Some correctAnswerMatch \<Rightarrow>
                      Some (questions @
                        [\<lparr>qid = index + 1,
                          question = trim (matchGroup block questionMatch 1),
                          options = opts,
                          correctAnswer = matchGroup block correctAnswerMatch 1,
                          explanation =
                            (case match explanationRegex block of
                               Some explanationMatch \<Rightarrow> trim (matchGroup block explanationMatch 1)
                             | None \<Rightarrow> [])\<rparr>]))))"

fun forEachQuestion ::
  "jsstring list \<Rightarrow> nat \<Rightarrow> MCQQuestion list \<Rightarrow> MCQQuestion list option" where
  "forEachQuestion [] index questions = Some questions"
| "forEachQuestion (block # blocks) index questions =
     (case parseQuestionBlock block index questions of
        None \<Rightarrow> None
      | Some questions' \<Rightarrow> forEachQuestion blocks (Suc index) questions')"

definition parseMCQOutput :: "jsstring \<Rightarrow> MCQQuestion list option" where
  "parseMCQOutput rawOutput = forEachQuestion (questionBlocks rawOutput) 0 []"

subsection \<open>The extractor of the module with the built-in quiz\<close>

text \<open>
  The second module of \<open>MCQQuiz.tsx\<close> parses a quiz text held in the module itself. Its
  \<open>parseMCQOutput\<close> cuts the blocks and reads the options differently; its names carry
  the suffix \<open>2\<close> here.
\<close>

text \<open>\<open>/(?=\d+\.\s)/g\<close>\<close>

definition questionSplitter2 :: regex where
  "questionSplitter2 = Look (seqs [Rep True 1 Digit, Lit (js ''.''), Cls Space])"

text \<open>\<open>/^\d+\./\<close>\<close>

definition numberHead :: regex where
  "numberHead = seqs [Bol False, Rep True 1 Digit, Lit (js ''.'')]"

text \<open>\<open>/^\([ABCD]\)/\<close>\<close>

definition optionLineHead :: regex where
  "optionLineHead = seqs [Bol False, Lit (js ''(''), Cls (OneOf (js ''ABCD'')), Lit (js '')'')]"

text \<open>\<open>/^\(([ABCD])\)\s(.+)$/\<close>\<close>

definition optionLineRegex :: regex where
  "optionLineRegex =
     seqs [Bol False, Lit (js ''(''), Grp 1 (Cls (OneOf (js ''ABCD''))), Lit (js '')''),
           Cls Space, Grp 2 (Rep True 1 Dot), Eol False]"

definition questionBlocks2 :: "jsstring \<Rightarrow> jsstring list" where
  "questionBlocks2 rawOutput =
     filter (\<lambda>block. trim block \<noteq> [] \<and> test numberHead (trim block))
       (split questionSplitter2 rawOutput)"

definition optionLines :: "jsstring \<Rightarrow> jsstring list" where
  "optionLines block =
     filter (\<lambda>line. match optionLineHead (trim line) \<noteq> None) (splitAt 10 [] block)"

text \<open>The body of \<open>optionLines.forEach(line => ...)\<close>.\<close>

definition setOption :: "(jsstring \<rightharpoonup> jsstring) \<Rightarrow> jsstring \<Rightarrow> (jsstring \<rightharpoonup> jsstring)" where
  "setOption opts line =
     (case match optionLineRegex (trim line) of
        None \<Rightarrow> opts
      | Some m \<Rightarrow> opts(matchGroup (trim line) m 1 \<mapsto> trim (matchGroup (trim line) m 2)))"

definition parseQuestionBlock2 ::
  "jsstring \<Rightarrow> nat \<Rightarrow> MCQQuestion list \<Rightarrow> MCQQuestion list" where
  "parseQuestionBlock2 block index questions =
     (case match questionRegex block of
        None \<Rightarrow> questions
      | Some questionMatch \<Rightarrow>
          if length (optionLines block) \<noteq> 4 then questions
          else
            (case match correctAnswerRegex block of
               None \<Rightarrow> questions
             | Some correctAnswerMatch \<Rightarrow>
                 questions @
                   [\<lparr>qid = index + 1,
                     question = trim (matchGroup block questionMatch 1),
                     options = foldl setOption emptyOptions (optionLines block),
                     correctAnswer = matchGroup block correctAnswerMatch 1,
                     explanation =
                       (case match explanationRegex block of
                          Some explanationMatch \<Rightarrow> trim (matchGroup block explanationMatch 1)
                        | None \<Rightarrow> [])\<rparr>]))"

fun forEachQuestion2 :: "jsstring list \<Rightarrow> nat \<Rightarrow> MCQQuestion list \<Rightarrow> MCQQuestion list" where
  "forEachQuestion2 [] index questions = questions"
| "forEachQuestion2 (block # blocks) index questions =
     forEachQuestion2 blocks (Suc index) (parseQuestionBlock2 block index questions)"

definition parseMCQOutput2 :: "jsstring \<Rightarrow> MCQQuestion list" where
  "parseMCQOutput2 rawOutput = forEachQuestion2 (questionBlocks2 rawOutput) 0 []"

section \<open>The flashcard extractor\<close>

record Flashcard =
  fid :: nat                        \<comment> \<open>the field \<open>id\<close>\<close>
  front :: jsstring
  back' :: jsstring                \<comment> \<open>the field \<open>back\<close>\<close>
  category :: "jsstring option"     \<comment> \<open>\<open>undefined\<close> is \<open>None\<close>\<close>

text \<open>\<open>/(?=\d+\.\s\*\*)/g\<close>\<close>

definition flashcardSplitter :: regex where
  "flashcardSplitter = Look (seqs [Rep True 1 Digit, Lit (js ''.''), Cls Space, Lit (js ''**'')])"

text \<open>\<open>/\*\*Answer:\*\*\s*(.*?)(?=\d+\.\s\*\*|$)/s\<close>\<close>

definition backRegex :: regex where
  "backRegex =
     seqs [Lit (js ''**Answer:**''), Rep True 0 Space, Grp 1 (Rep False 0 AnyChar),
           Look (Alt (seqs [Rep True 1 Digit, Lit (js ''.''), Cls Space, Lit (js ''**'')])
                     (Eol False))]"

text \<open>\<open>/\*\*Category:\s*(.+?)\*\*/\<close>\<close>

definition categoryRegex :: regex where
  "categoryRegex =
     seqs [Lit (js ''**Category:''), Rep True 0 Space, Grp 1 (Rep False 1 Dot), Lit (js ''**'')]"

definition flashcardBlocks :: "jsstring \<Rightarrow> jsstring list" where
  "flashcardBlocks rawOutput =
     filter (\<lambda>block. match blockHead (trim block) \<noteq> None) (split flashcardSplitter rawOutput)"

text \<open>
  The body of \<open>flashcardBlocks.forEach((block, index) => ...)\<close>. The empty string is the
  one falsy string, so \<open>!front || !back\<close> holds when either text is empty.
\<close>

definition parseFlashcardBlock :: "jsstring \<Rightarrow> nat \<Rightarrow> Flashcard list \<Rightarrow> Flashcard list" where
  "parseFlashcardBlock block index flashcards =
     (case match questionRegex block of
        None \<Rightarrow> flashcards
      | Some frontMatch \<Rightarrow>
          (case match backRegex block of
             None \<Rightarrow> flashcards
           | Some backMatch \<Rightarrow>
               if trim (matchGroup block frontMatch 1) = [] \<or> trim (matchGroup block backMatch 1) = []
               then flashcards
               else
                 flashcards @
                   [\<lparr>fid = index + 1,
                     front = trim (matchGroup block frontMatch 1),
                     back' = trim (matchGroup block backMatch 1),
                     category =
                       (case match categoryRegex block of
                          Some categoryMatch \<Rightarrow> Some (trim (matchGroup block categoryMatch 1))
                        | None \<Rightarrow> None)\<rparr>]))"

fun forEachFlashcard :: "jsstring list \<Rightarrow> nat \<Rightarrow> Flashcard list \<Rightarrow> Flashcard list" where
  "forEachFlashcard [] index flashcards = flashcards"
| "forEachFlashcard (block # blocks) index flashcards =
     forEachFlashcard blocks (Suc index) (parseFlashcardBlock block index flashcards)"

definition parseFlashcardOutput :: "jsstring \<Rightarrow> Flashcard list" where
  "parseFlashcardOutput rawOutput = forEachFlashcard (flashcardBlocks rawOutput) 0 []"

section \<open>The quiz session\<close>

text \<open>
  The state of the component \<open>MCQQuiz\<close>: one field for each \<open>useState\<close>. The objects
  \<open>selectedAnswers\<close> and \<open>showExplanation\<close> are maps from question positions; a key that
  is not set reads as \<open>undefined\<close>.
\<close>

record mcq_state =
  mcqData :: "MCQQuestion list"
  currentQuestion :: nat
  selectedAnswers :: "nat \<rightharpoonup> jsstring"
  showExplanation :: "nat \<rightharpoonup> bool"
  quizCompleted :: bool
  loading :: bool
  error :: jsstring

definition initialQuiz :: mcq_state where
  "initialQuiz =
     \<lparr>mcqData = [], currentQuestion = 0, selectedAnswers = Map.empty,
      showExplanation = Map.empty, quizCompleted = False, loading = True, error = []\<rparr>"

text \<open>
  The effect run on mounting, from the check of the parsed data on: the error message
  when nothing was parsed, the data otherwise, and \<open>setLoading(false)\<close> in both cases.
\<close>

definition loadItems :: "MCQQuestion list \<Rightarrow> mcq_state \<Rightarrow> mcq_state" where
  "loadItems parsedData s =
     (if length parsedData = 0
      then s\<lparr>error := js ''Could not parse quiz questions. Please try generating the quiz again.''\<rparr>
      else s\<lparr>mcqData := parsedData\<rparr>)\<lparr>loading := False\<rparr>"

text \<open>
  The whole effect: \<open>storedMcqData\<close> is what \<open>localStorage\<close> holds under \<open>mcqData\<close>
  (\<open>None\<close> for \<open>null\<close>); the empty string is falsy too. The result is \<open>None\<close> when the
  extractor does not return.
\<close>

definition loadQuiz :: "jsstring option \<Rightarrow> mcq_state \<Rightarrow> mcq_state option" where
  "loadQuiz storedMcqData s =
     (case storedMcqData of
        None \<Rightarrow>
          Some (s\<lparr>error := js ''No quiz data found. Please generate a quiz first.'',
                  loading := False\<rparr>)
      | Some raw \<Rightarrow>
          if raw = [] then
            Some (s\<lparr>error := js ''No quiz data found. Please generate a quiz first.'',
                    loading := False\<rparr>)
          else map_option (\<lambda>parsedData. loadItems parsedData s) (parseMCQOutput raw))"

definition handleAnswerSelect :: "jsstring \<Rightarrow> mcq_state \<Rightarrow> mcq_state" where
  "handleAnswerSelect answer s =
     s\<lparr>selectedAnswers := (selectedAnswers s)(currentQuestion s \<mapsto> answer),
       showExplanation := (showExplanation s)(currentQuestion s \<mapsto> True)\<rparr>"

text \<open>
  The click handler of an option button,
  \<open>() => !showCurrentExplanation && handleAnswerSelect(letter)\<close>, where
  \<open>showCurrentExplanation\<close> is \<open>showExplanation[currentQuestion]\<close>.
\<close>

definition optionClick :: "jsstring \<Rightarrow> mcq_state \<Rightarrow> mcq_state" where
  "optionClick letter s =
     (if showExplanation s (currentQuestion s) = Some True then s
      else handleAnswerSelect letter s)"

definition nextQuestion :: "mcq_state \<Rightarrow> mcq_state" where
  "nextQuestion s =
     (if int (currentQuestion s) < int (length (mcqData s)) - 1
      then s\<lparr>currentQuestion := currentQuestion s + 1\<rparr>
      else s\<lparr>quizCompleted := True\<rparr>)"

definition prevQuestion :: "mcq_state \<Rightarrow> mcq_state" where
  "prevQuestion s =
     (if currentQuestion s > 0 then s\<lparr>currentQuestion := currentQuestion s - 1\<rparr> else s)"

definition resetQuiz :: "mcq_state \<Rightarrow> mcq_state" where
  "resetQuiz s =
     s\<lparr>currentQuestion := 0, selectedAnswers := Map.empty, showExplanation := Map.empty,
       quizCompleted := False\<rparr>"

text \<open>The states a session can be in: those the handlers make from a loaded quiz.\<close>

inductive reachable :: "mcq_state \<Rightarrow> bool" where
  by_load: "parsedData \<noteq> [] \<Longrightarrow> reachable (loadItems parsedData initialQuiz)"
| by_select: "reachable s \<Longrightarrow> reachable (handleAnswerSelect letter s)"
| by_click: "reachable s \<Longrightarrow> reachable (optionClick letter s)"
| by_next: "reachable s \<Longrightarrow> reachable (nextQuestion s)"
| by_prev: "reachable s \<Longrightarrow> reachable (prevQuestion s)"
| by_reset: "reachable s \<Longrightarrow> reachable (resetQuiz s)"

text \<open>
  A run through the quiz: on each question in turn a click on an option, then the button
  Next.
\<close>

fun answerAll :: "jsstring list \<Rightarrow> mcq_state \<Rightarrow> mcq_state" where
  "answerAll [] s = s"
| "answerAll (letter # ls) s = answerAll ls (nextQuestion (optionClick letter s))"

subsection \<open>The score\<close>

text \<open>\<open>mcqData.forEach((question, idx) => ...)\<close> with the counter \<open>correct\<close>.\<close>

fun countCorrect :: "MCQQuestion list \<Rightarrow> nat \<Rightarrow> (nat \<rightharpoonup> jsstring) \<Rightarrow> nat \<Rightarrow> nat" where
  "countCorrect [] idx answers correct = correct"
| "countCorrect (q # qs) idx answers correct =
     countCorrect qs (Suc idx) answers
       (if answers idx = Some (correctAnswer q) then Suc correct else correct)"

definition calculateScore :: "mcq_state \<Rightarrow> nat" where
  "calculateScore s = countCorrect (mcqData s) 0 (selectedAnswers s) 0"

text \<open>
  The numbers of JavaScript are IEEE 754 doubles: the result of a division or of a
  multiplication is the exact result rounded to 53 significant bits, ties to the even
  mantissa. \<open>exponentOf x\<close> is the exponent of the leading bit of a positive \<open>x\<close>. The
  operands here are lengths of arrays and a percentage, so neither the subnormal range
  nor infinity is reached.
\<close>

definition roundNearestEven :: "rat \<Rightarrow> int" where
  "roundNearestEven x =
     (let f = \<lfloor>x\<rfloor>; d = x - of_int f in
      if d < 1 / 2 then f else if 1 / 2 < d then f + 1 else if even f then f else f + 1)"

definition exponentOf :: "rat \<Rightarrow> int" where
  "exponentOf x =
     (let (a, b) = quotient_of x; d = bitlen a - bitlen b in
      if 2 powi d \<le> x then d else d - 1)"

definition toDouble :: "rat \<Rightarrow> rat" where
  "toDouble x =
     (if x = 0 then 0
      else let u = 2 powi (exponentOf \<bar>x\<bar> - 52)
           in sgn x * of_int (roundNearestEven (\<bar>x\<bar> / u)) * u)"

definition jsDivide :: "rat \<Rightarrow> rat \<Rightarrow> rat" where
  "jsDivide x y = toDouble (x / y)"

definition jsTimes :: "rat \<Rightarrow> rat \<Rightarrow> rat" where
  "jsTimes x y = toDouble (x * y)"

text \<open>\<open>Math.round\<close>: the nearest integer, the larger one of two equally near.\<close>

definition Math_round :: "rat \<Rightarrow> int" where
  "Math_round x = \<lfloor>x + 1 / 2\<rfloor>"

text \<open>
  \<open>Math.round((score / mcqData.length) * 100)\<close>. With no question the quotient is
  \<open>0 / 0\<close>, which is \<open>NaN\<close>, and so is the result: the value \<open>None\<close>.
\<close>

definition percentage :: "mcq_state \<Rightarrow> int option" where
  "percentage s =
     (if length (mcqData s) = 0 then None
      else Some (Math_round
             (jsTimes (jsDivide (of_nat (calculateScore s)) (of_nat (length (mcqData s)))) 100)))"

text \<open>Rounding to the nearest integer, a half away from zero, as the specification words it.\<close>

definition roundHalfAwayFromZero :: "rat \<Rightarrow> int" where
  "roundHalfAwayFromZero x = (if x < 0 then - \<lfloor>- x + 1 / 2\<rfloor> else \<lfloor>x + 1 / 2\<rfloor>)"

section \<open>The flashcard session\<close>

record flashcard_state =
  flashcardData :: "Flashcard list"
  currentCard :: nat
  isFlipped :: bool
  reviewedCards :: "nat set"
  studyCompleted :: bool
  loadingCards :: bool          \<comment> \<open>the state \<open>loading\<close> of \<open>FlashcardQuiz\<close>\<close>
  errorCards :: jsstring        \<comment> \<open>the state \<open>error\<close> of \<open>FlashcardQuiz\<close>\<close>

definition initialStudy :: flashcard_state where
  "initialStudy =
     \<lparr>flashcardData = [], currentCard = 0, isFlipped = False, reviewedCards = {},
      studyCompleted = False, loadingCards = True, errorCards = []\<rparr>"

definition loadCards :: "Flashcard list \<Rightarrow> flashcard_state \<Rightarrow> flashcard_state" where
  "loadCards parsedData s =
     (if length parsedData = 0
      then s\<lparr>errorCards :=
               js ''Could not parse flashcard data. Please try generating the flashcards again.''\<rparr>
      else s\<lparr>flashcardData := parsedData\<rparr>)\<lparr>loadingCards := False\<rparr>"

definition handleFlip :: "flashcard_state \<Rightarrow> flashcard_state" where
  "handleFlip s =
     (if \<not> isFlipped s
      then s\<lparr>isFlipped := \<not> isFlipped s, reviewedCards := insert (currentCard s) (reviewedCards s)\<rparr>
      else s\<lparr>isFlipped := \<not> isFlipped s\<rparr>)"

definition nextCard :: "flashcard_state \<Rightarrow> flashcard_state" where
  "nextCard s =
     (if int (currentCard s) < int (length (flashcardData s)) - 1
      then s\<lparr>currentCard := currentCard s + 1, isFlipped := False\<rparr>
      else s\<lparr>studyCompleted := True\<rparr>)"

definition prevCard :: "flashcard_state \<Rightarrow> flashcard_state" where
  "prevCard s =
     (if currentCard s > 0 then s\<lparr>currentCard := currentCard s - 1, isFlipped := False\<rparr>
      else s)"

definition resetStudy :: "flashcard_state \<Rightarrow> flashcard_state" where
  "resetStudy s =
     s\<lparr>currentCard := 0, isFlipped := False, reviewedCards := {}, studyCompleted := False\<rparr>"

text \<open>What the user can do with a deck, and a sequence of such events.\<close>

datatype study_event = Flip | Next | Prev | Reset

fun studyStep :: "study_event \<Rightarrow> flashcard_state \<Rightarrow> flashcard_state" where
  "studyStep Flip s = handleFlip s"
| "studyStep Next s = nextCard s"
| "studyStep Prev s = prevCard s"
| "studyStep Reset s = resetStudy s"

fun study :: "study_event list \<Rightarrow> flashcard_state \<Rightarrow> flashcard_state" where
  "study [] s = s"
| "study (e # es) s = study es (studyStep e s)"

section \<open>Reading the extractors as filters\<close>

text \<open>
  The checks of a loop body, written as predicates on a block, and the record the body
  pushes when they pass. The lemmas below show that each body is exactly that.
\<close>

text \<open>The text of group 1 of the first match of a pattern in a block.\<close>

definition captured :: "regex \<Rightarrow> jsstring \<Rightarrow> jsstring" where
  "captured r block = (case match r block of Some m \<Rightarrow> matchGroup block m 1 | None \<Rightarrow> [])"

text \<open>What the loop over the option pattern leaves: the counter and the object.\<close>

definition foundOptions :: "jsstring \<Rightarrow> nat option" where
  "foundOptions block = map_option snd (optionLoop block 0 emptyOptions 0)"

definition blockOptions :: "jsstring \<Rightarrow> (jsstring \<rightharpoonup> jsstring)" where
  "blockOptions block =
     (case optionLoop block 0 emptyOptions 0 of Some (opts, n) \<Rightarrow> opts | None \<Rightarrow> emptyOptions)"

definition blockOptions2 :: "jsstring \<Rightarrow> (jsstring \<rightharpoonup> jsstring)" where
  "blockOptions2 block = foldl setOption emptyOptions (optionLines block)"

text \<open>
  A block is well formed for the extractor when its three checks pass: the question
  pattern matches, the option pattern is found exactly four times, and the marker of the
  correct answer is there.
\<close>

definition wellFormedQuestion :: "jsstring \<Rightarrow> bool" where
  "wellFormedQuestion block =
     (match questionRegex block \<noteq> None \<and> foundOptions block = Some 4
      \<and> match correctAnswerRegex block \<noteq> None)"

definition wellFormedQuestion2 :: "jsstring \<Rightarrow> bool" where
  "wellFormedQuestion2 block =
     (match questionRegex block \<noteq> None \<and> length (optionLines block) = 4
      \<and> match correctAnswerRegex block \<noteq> None)"

definition questionOf ::
  "(jsstring \<Rightarrow> (jsstring \<rightharpoonup> jsstring)) \<Rightarrow> jsstring \<Rightarrow> nat \<Rightarrow> MCQQuestion" where
  "questionOf opts block index =
     \<lparr>qid = index + 1,
      question = trim (captured questionRegex block),
      options = opts block,
      correctAnswer = captured correctAnswerRegex block,
      explanation = trim (captured explanationRegex block)\<rparr>"

definition keepsCard :: "jsstring \<Rightarrow> bool" where
  "keepsCard block =
     (match questionRegex block \<noteq> None \<and> match backRegex block \<noteq> None
      \<and> trim (captured questionRegex block) \<noteq> [] \<and> trim (captured backRegex block) \<noteq> [])"

definition cardOf :: "jsstring \<Rightarrow> nat \<Rightarrow> Flashcard" where
  "cardOf block index =
     \<lparr>fid = index + 1,
      front = trim (captured questionRegex block),
      back' = trim (captured backRegex block),
      category = map_option (\<lambda>m. trim (matchGroup block m 1)) (match categoryRegex block)\<rparr>"

text \<open>
  The blocks that satisfy \<open>P\<close>, each with its position, counted from \<open>n\<close>, among all the
  blocks, in their order.
\<close>

definition selected :: "('a \<Rightarrow> bool) \<Rightarrow> nat \<Rightarrow> 'a list \<Rightarrow> (nat \<times> 'a) list" where
  "selected P n bs = filter (\<lambda>(i, b). P b) (enumerate n bs)"

text \<open>The four keys of the object \<open>options\<close>, and the texts a question has under them.\<close>

definition letters :: "jsstring set" where
  "letters = {js ''A'', js ''B'', js ''C'', js ''D''}"

definition optionTexts :: "MCQQuestion \<Rightarrow> jsstring option list" where
  "optionTexts q = map (options q) [js ''A'', js ''B'', js ''C'', js ''D'']"

text \<open>The least number of code units a match of a pattern takes, and its group numbers.\<close>

fun minlen :: "regex \<Rightarrow> nat" where
  "minlen (Lit w) = length w"
| "minlen (Cls k) = 1"
| "minlen (Rep greedy m k) = m"
| "minlen (Seq a b) = minlen a + minlen b"
| "minlen (Alt a b) = min (minlen a) (minlen b)"
| "minlen (Grp g r) = minlen r"
| "minlen (Look r) = 0"
| "minlen (Bol ml) = 0"
| "minlen (Eol ml) = 0"

fun groups :: "regex \<Rightarrow> nat set" where
  "groups (Seq a b) = groups a \<union> groups b"
| "groups (Alt a b) = groups a \<union> groups b"
| "groups (Grp g r) = insert g (groups r)"
| "groups (Look r) = groups r"
| "groups r = {}"

section \<open>The grammar of the specification\<close>

text \<open>
  The specification describes a block by what its text holds, not by what the extractor
  counts. The definitions of this section follow its words, to be compared with the
  checks of the code.
\<close>

text \<open>
  Every match of the option pattern in a block, in the order of the text: the letter and
  the trimmed text of each. This is the loop of the extractor with a list in the place
  of the object and of the counter.
\<close>

function optionMatches :: "jsstring \<Rightarrow> nat \<Rightarrow> (jsstring \<times> jsstring) list option" where
  "optionMatches block lastIndex =
     (case execFrom optionRegex block lastIndex of
        None \<Rightarrow> Some []
      | Some m \<Rightarrow>
          if m_end m \<le> lastIndex then None
          else map_option ((#) (matchGroup block m 1, trim (matchGroup block m 2)))
                 (optionMatches block (m_end m)))"
  by pat_completeness auto
termination
proof -
  have inside: "i \<le> length s" if "execFrom r s i = Some m" for r s i m
    using that by (cases "i \<le> length s") (auto simp: execFrom_def)
  show ?thesis
    by (relation "measure (\<lambda>(block, lastIndex). Suc (length block) - lastIndex)")
       (auto dest!: inside)
qed

declare optionMatches.simps [simp del]







section \<open>Sample inputs\<close>

text \<open>A block whose four option lines carry the letters A, A, B and C.\<close>

definition quizWithRepeatedLetter :: jsstring where
  "quizWithRepeatedLetter =
     js ''1. **Q**\<newline>(A) x\<newline>(A) y\<newline>(B) z\<newline>(C) w\<newline>**Correct Answer: (A)**''"

text \<open>Three blocks after a title line; the second has three options only.\<close>

definition quizWithBrokenBlock :: jsstring where
  "quizWithBrokenBlock =
     js ''Quiz\<newline>1. **P**\<newline>(A) a\<newline>(B) b\<newline>(C) c\<newline>(D) d\<newline>**Correct Answer: (B)**\<newline>2. **Q**\<newline>(A) a\<newline>(B) b\<newline>(C) c\<newline>**Correct Answer: (A)**\<newline>3. **R**\<newline>(A) a\<newline>(B) b\<newline>(C) c\<newline>(D) d\<newline>**Correct Answer: (D)** why''"

text \<open>Two blocks; the first has no marker of the correct answer.\<close>

definition quizWithUnmarkedBlock :: jsstring where
  "quizWithUnmarkedBlock =
     js ''1. **P**\<newline>(A) a\<newline>(B) b\<newline>(C) c\<newline>(D) d\<newline>2. **Q**\<newline>(A) a\<newline>(B) b\<newline>(C) c\<newline>(D) d\<newline>**Correct Answer: (A)**''"

text \<open>A card whose answer marker is followed by nothing, alone and before a full card.\<close>

definition cardWithBlankAnswer :: jsstring where
  "cardWithBlankAnswer = js ''1. **Q**\<newline>**Answer:**''"

definition cardsWithBlankAnswer :: jsstring where
  "cardsWithBlankAnswer = js ''1. **Q**\<newline>**Answer:**\<newline>2. **R** **Answer:** r''"

text \<open>A quiz of three questions whose correct letters are C, C and B, and three cards.\<close>

definition sampleQuestion :: "nat \<Rightarrow> string \<Rightarrow> MCQQuestion" where
  "sampleQuestion n letter =
     \<lparr>qid = n, question = js ''Q'',
      options = [js ''A'' \<mapsto> js ''a'', js ''B'' \<mapsto> js ''b'', js ''C'' \<mapsto> js ''c'',
                 js ''D'' \<mapsto> js ''d''],
      correctAnswer = js letter, explanation = []\<rparr>"

definition sampleQuiz :: mcq_state where
  "sampleQuiz =
     loadItems [sampleQuestion 1 ''C'', sampleQuestion 2 ''C'', sampleQuestion 3 ''B''] initialQuiz"

definition sampleCard :: "nat \<Rightarrow> Flashcard" where
  "sampleCard n = \<lparr>fid = n, front = js ''Q'', back' = js ''R'', category = None\<rparr>"

definition sampleStudy :: flashcard_state where
  "sampleStudy = loadCards [sampleCard 1, sampleCard 2, sampleCard 3] initialStudy"






text \<open>
  A quiz of forty questions, all with the correct letter C, taken to its end: C is
  clicked on the first 23 questions and A on the other 17.
\<close>

definition finishedQuiz :: mcq_state where
  "finishedQuiz =
     answerAll (replicate 23 (js ''C'') @ replicate 17 (js ''A''))
       (loadItems (map (\<lambda>n. sampleQuestion n ''C'') [1..<41]) initialQuiz)"

section \<open>Facts about the matcher\<close>

lemma trim_Nil [simp]: "trim [] = []"
  by (simp add: trim_def)

text \<open>A match takes at least \<open>minlen\<close> code units.\<close>

lemma bt_minlen: "(j, c') \<in> set (bt r s (i, c)) \<Longrightarrow> i + minlen r \<le> j"
proof (induction r arbitrary: i c j c')
  case (Seq a b)
  from Seq.prems obtain k d where a: "(k, d) \<in> set (bt a s (i, c))"
    and b: "(j, c') \<in> set (bt b s (k, d))"
    by auto
  from Seq.IH(1)[OF a] Seq.IH(2)[OF b] show ?case by simp
next
  case (Alt a b)
  then show ?case by fastforce
next
  case (Grp g r)
  then show ?case by fastforce
next
  case (Look r)
  then show ?case by (auto split: list.splits)
qed (auto split: if_splits simp: Let_def)

text \<open>A pattern leaves the groups of other patterns as they were.\<close>

lemma bt_frame: "(j, c') \<in> set (bt r s (i, c)) \<Longrightarrow> g \<notin> groups r \<Longrightarrow> c' g = c g"
proof (induction r arbitrary: i c j c')
  case (Seq a b)
  from Seq.prems(1) obtain k d where a: "(k, d) \<in> set (bt a s (i, c))"
    and b: "(j, c') \<in> set (bt b s (k, d))"
    by auto
  from Seq.IH(1)[OF a] Seq.IH(2)[OF b] Seq.prems(2) show ?case by simp
next
  case (Alt a b)
  then show ?case by fastforce
next
  case (Grp h r)
  then show ?case by fastforce
next
  case (Look r)
  show ?case
  proof (cases "bt r s (i, c)")
    case Nil
    with Look.prems show ?thesis by simp
  next
    case (Cons x xs)
    obtain k d where x: "x = (k, d)" by (cases x)
    with Cons Look.prems(1) have "c' = d" and "(k, d) \<in> set (bt r s (i, c))" by auto
    with Look.IH[of k d i c] Look.prems(2) show ?thesis by simp
  qed
qed (auto split: if_splits simp: Let_def)

lemma in_bt_Seq:
  "(j, c') \<in> set (bt (Seq a b) s st) \<longleftrightarrow>
     (\<exists>k d. (k, d) \<in> set (bt a s st) \<and> (j, c') \<in> set (bt b s (k, d)))"
  by auto

lemma bt_Seq_snd:
  "(j, c') \<in> set (bt (Seq a b) s st) \<Longrightarrow> \<exists>k d. (j, c') \<in> set (bt b s (k, d))"
  by auto

text \<open>A group that is one character of a class captures one character of that class.\<close>

lemma bt_letter_group:
  assumes "(j, c') \<in> set (bt (Seq (Grp g (Cls K)) b) s (i, c))" and "g \<notin> groups b"
  shows "c' g = Some (i, Suc i) \<and> i < length s \<and> cls_mem K (s ! i)"
proof -
  from assms(1) obtain k d where a: "(k, d) \<in> set (bt (Grp g (Cls K)) s (i, c))"
    and b: "(j, c') \<in> set (bt b s (k, d))"
    unfolding in_bt_Seq by blast
  from a have "d g = Some (i, Suc i) \<and> i < length s \<and> cls_mem K (s ! i)"
    by (auto split: if_splits)
  with bt_frame[OF b assms(2)] show ?thesis by simp
qed

lemma matchAt_Some:
  assumes "matchAt r s i = Some m"
  shows "m_start m = i" and "(m_end m, m_caps m) \<in> set (bt r s (i, Map.empty))"
  using assms by (auto simp: matchAt_def split: list.splits)

lemma firstMatch_Some:
  "firstMatch r s is = Some m \<Longrightarrow> m_start m \<in> set is \<and> matchAt r s (m_start m) = Some m"
  by (induction "is") (auto split: option.splits dest: matchAt_Some(1))

lemma execFrom_Some:
  assumes "execFrom r s i = Some m"
  shows "i \<le> m_start m" and "m_start m \<le> length s"
    and "(m_end m, m_caps m) \<in> set (bt r s (m_start m, Map.empty))"
  using firstMatch_Some[OF assms[unfolded execFrom_def]] matchAt_Some(2)
  by auto

lemma execFrom_advances:
  assumes "execFrom r s i = Some m"
  shows "i + minlen r \<le> m_end m"
  using execFrom_Some(1,3)[OF assms] bt_minlen by fastforce

subsection \<open>The option patterns\<close>

lemma minlen_optionRegex: "minlen optionRegex = 5"
  by (simp add: optionRegex_def js_def)

text \<open>Every match of the option pattern moves \<open>lastIndex\<close> forward: the loop returns.\<close>

lemma optionLoop_total: "optionLoop block lastIndex opts n \<noteq> None"
proof (induction block lastIndex opts n rule: optionLoop.induct)
  case (1 block lastIndex opts foundOptions)
  show ?case
  proof (cases "execFrom optionRegex block lastIndex")
    case None
    then show ?thesis by (subst optionLoop.simps) simp
  next
    case (Some m)
    from execFrom_advances[OF Some] have adv: "\<not> m_end m \<le> lastIndex"
      by (simp add: minlen_optionRegex)
    have "optionLoop block (m_end m)
            (opts(matchGroup block m 1 \<mapsto> trim (matchGroup block m 2))) (Suc foundOptions) \<noteq> None"
      using 1[OF Some adv] by (simp add: fun_upd_def)
    with Some adv show ?thesis by (subst optionLoop.simps) simp
  qed
qed

lemma optionRegex_letter:
  assumes "(j, c') \<in> set (bt optionRegex s (i, c))"
  shows "\<exists>a. c' 1 = Some (a, Suc a) \<and> a < length s \<and> s ! a \<in> set (js ''ABCD'')"
proof -
  from assms obtain k d where
    "(j, c') \<in> set (bt (Seq (Grp 1 (Cls (OneOf (js ''ABCD''))))
        (seqs [Lit (js '')''), Cls Space, Grp 2 (Rep True 1 Dot), Eol True])) s (k, d))"
    unfolding optionRegex_def seqs.simps by (blast dest: bt_Seq_snd)
  from bt_letter_group[OF this] show ?thesis by auto
qed

lemma optionLineRegex_letter:
  assumes "(j, c') \<in> set (bt optionLineRegex s (i, c))"
  shows "\<exists>a. c' 1 = Some (a, Suc a) \<and> a < length s \<and> s ! a \<in> set (js ''ABCD'')"
proof -
  from assms obtain k d where
    "(j, c') \<in> set (bt (Seq (Grp 1 (Cls (OneOf (js ''ABCD''))))
        (seqs [Lit (js '')''), Cls Space, Grp 2 (Rep True 1 Dot), Eol False])) s (k, d))"
    unfolding optionLineRegex_def seqs.simps by (blast dest: bt_Seq_snd)
  from bt_letter_group[OF this] show ?thesis by auto
qed

lemma matchGroup_letter:
  assumes "m_caps m 1 = Some (a, Suc a)" "a < length s" "s ! a \<in> set (js ''ABCD'')"
  shows "matchGroup s m 1 \<in> letters"
proof -
  have "substring s a (Suc a) = [s ! a]"
    using assms(2)
    by (simp add: substring_def take_Suc_conv_app_nth Cons_nth_drop_Suc[symmetric] take_Suc)
  with assms show ?thesis by (auto simp: matchGroup_def letters_def js_def)
qed

lemma execFrom_optionRegex_letter:
  assumes "execFrom optionRegex s i = Some m"
  shows "matchGroup s m 1 \<in> letters"
  using optionRegex_letter[OF execFrom_Some(3)[OF assms]] matchGroup_letter by blast

lemma match_optionLineRegex_letter:
  assumes "match optionLineRegex s = Some m"
  shows "matchGroup s m 1 \<in> letters"
  using optionLineRegex_letter[OF execFrom_Some(3)[OF assms[unfolded match_def]]]
    matchGroup_letter
  by blast

lemma dom_emptyOptions: "dom emptyOptions = letters"
  by (auto simp: emptyOptions_def letters_def)

lemma optionLoop_dom:
  "optionLoop block lastIndex opts n = Some (opts', n') \<Longrightarrow> dom opts = letters \<Longrightarrow>
     dom opts' = letters"
proof (induction block lastIndex opts n rule: optionLoop.induct)
  case (1 block lastIndex opts foundOptions)
  show ?case
  proof (cases "execFrom optionRegex block lastIndex")
    case None
    with "1.prems" show ?thesis by (subst (asm) optionLoop.simps) simp
  next
    case (Some m)
    from execFrom_advances[OF Some] have adv: "\<not> m_end m \<le> lastIndex"
      by (simp add: minlen_optionRegex)
    have l: "matchGroup block m 1 \<in> letters"
      by (rule execFrom_optionRegex_letter[OF Some])
    from "1.prems"(1) Some adv
    have "optionLoop block (m_end m)
            (opts(matchGroup block m 1 \<mapsto> trim (matchGroup block m 2))) (Suc foundOptions)
          = Some (opts', n')"
      by (subst (asm) optionLoop.simps) simp
    moreover have "dom (opts(matchGroup block m 1 \<mapsto> trim (matchGroup block m 2))) = letters"
      using l "1.prems"(2) by auto
    ultimately show ?thesis using "1.IH"[OF Some adv] by (simp add: fun_upd_def)
  qed
qed

lemma dom_blockOptions: "dom (blockOptions block) = letters"
proof -
  obtain opts n where loop: "optionLoop block 0 emptyOptions 0 = Some (opts, n)"
    using optionLoop_total[of block 0 emptyOptions 0] by auto
  from optionLoop_dom[OF loop dom_emptyOptions] loop show ?thesis
    by (simp add: blockOptions_def)
qed

lemma setOption_dom: "dom opts = letters \<Longrightarrow> dom (setOption opts line) = letters"
  by (auto simp: setOption_def split: option.splits dest: match_optionLineRegex_letter)

lemma foldl_setOption_dom: "dom opts = letters \<Longrightarrow> dom (foldl setOption opts ls) = letters"
  by (induction ls arbitrary: opts) (simp_all add: setOption_dom)

lemma dom_blockOptions2: "dom (blockOptions2 block) = letters"
  by (simp add: blockOptions2_def foldl_setOption_dom dom_emptyOptions)

section \<open>The extractors are filters over the blocks\<close>

lemma selected_Nil [simp]: "selected P n [] = []"
  by (simp add: selected_def)

lemma selected_Cons:
  "selected P n (b # bs) = (if P b then (n, b) # selected P (Suc n) bs else selected P (Suc n) bs)"
  by (simp add: selected_def)


lemma selected_mem:
  "(i, b) \<in> set (selected P n bs) \<longleftrightarrow> n \<le> i \<and> i < n + length bs \<and> b = bs ! (i - n) \<and> P b"
  by (auto simp: selected_def in_set_enumerate_eq)

text \<open>
  The entry at place \<open>k\<close> of the selection is the block at some position \<open>i\<close>, and \<open>k\<close>
  counts the blocks before \<open>i\<close> that satisfy \<open>P\<close>.
\<close>

lemma selected_nth:
  "k < length (selected P n bs) \<Longrightarrow>
     \<exists>i<length bs. selected P n bs ! k = (n + i, bs ! i) \<and> P (bs ! i)
        \<and> length (filter P (take i bs)) = k"
proof (induction bs arbitrary: n k)
  case Nil
  then show ?case by simp
next
  case (Cons b bs)
  show ?case
  proof (cases "P b \<and> k = 0")
    case True
    then have "selected P n (b # bs) ! k = (n + 0, (b # bs) ! 0) \<and> P ((b # bs) ! 0)
        \<and> length (filter P (take 0 (b # bs))) = k"
      by (simp add: selected_Cons)
    then show ?thesis by blast
  next
    case False
    define k' where "k' = (if P b then k - 1 else k)"
    from False Cons.prems have k': "k' < length (selected P (Suc n) bs)"
      and nth: "selected P n (b # bs) ! k = selected P (Suc n) bs ! k'"
      and k: "k = (if P b then Suc k' else k')"
      by (auto simp: selected_Cons k'_def split: if_splits)
    from Cons.IH[OF k'] obtain i where i: "i < length bs"
      "selected P (Suc n) bs ! k' = (Suc n + i, bs ! i)" "P (bs ! i)"
      "length (filter P (take i bs)) = k'"
      by blast
    then have "Suc i < length (b # bs)
        \<and> selected P n (b # bs) ! k = (n + Suc i, (b # bs) ! Suc i)
        \<and> P ((b # bs) ! Suc i) \<and> length (filter P (take (Suc i) (b # bs))) = k"
      using nth k by simp
    then show ?thesis by blast
  qed
qed

lemma in_extracted:
  "x \<in> set (map (\<lambda>(i, b). f b i) (selected P 0 bs)) \<longleftrightarrow>
     (\<exists>i<length bs. P (bs ! i) \<and> x = f (bs ! i) i)"
proof
  assume "x \<in> set (map (\<lambda>(i, b). f b i) (selected P 0 bs))"
  then obtain i b where "(i, b) \<in> set (selected P 0 bs)" and "x = f b i"
    by auto
  then show "\<exists>i<length bs. P (bs ! i) \<and> x = f (bs ! i) i"
    by (auto simp: selected_mem)
next
  assume "\<exists>i<length bs. P (bs ! i) \<and> x = f (bs ! i) i"
  then obtain i where i: "i < length bs" "P (bs ! i)" "x = f (bs ! i) i"
    by blast
  then have "(i, bs ! i) \<in> set (selected P 0 bs)"
    by (simp add: selected_mem)
  then have "f (bs ! i) i \<in> (\<lambda>(i, b). f b i) ` set (selected P 0 bs)"
    by force
  with i show "x \<in> set (map (\<lambda>(i, b). f b i) (selected P 0 bs))"
    by simp
qed

lemma extracted_all:
  "(\<forall>x\<in>set (map (\<lambda>(i, b). f b i) (selected P 0 bs)). Q x) \<longleftrightarrow>
     (\<forall>i<length bs. P (bs ! i) \<longrightarrow> Q (f (bs ! i) i))"
  unfolding Ball_def in_extracted by blast

lemma extracted_nth:
  assumes "k < length (map (\<lambda>(i, b). f b i) (selected P 0 bs))"
  shows "\<exists>i<length bs. map (\<lambda>(i, b). f b i) (selected P 0 bs) ! k = f (bs ! i) i \<and> P (bs ! i)
           \<and> length (filter P (take i bs)) = k
           \<and> i = k + length (filter (\<lambda>b. \<not> P b) (take i bs))"
proof -
  from assms have k: "k < length (selected P 0 bs)" by simp
  from selected_nth[OF k] obtain i where i: "i < length bs"
    "selected P 0 bs ! k = (0 + i, bs ! i)" "P (bs ! i)" "length (filter P (take i bs)) = k"
    by blast
  have "length (filter P (take i bs)) + length (filter (\<lambda>b. \<not> P b) (take i bs))
      = length (take i bs)"
    by (rule sum_length_filter_compl)
  with i have "i = k + length (filter (\<lambda>b. \<not> P b) (take i bs))" by simp
  with i k show ?thesis by auto
qed

lemma qid_questionOf [simp]: "qid (questionOf opts b i) = i + 1"
  and options_questionOf [simp]: "options (questionOf opts b i) = opts b"
  by (simp_all add: questionOf_def)

lemma sorted_fst_selected: "sorted_wrt (<) (map fst (selected P n bs))"
proof -
  have "sorted_wrt (<) (map fst (enumerate n bs))"
    by (simp add: map_fst_enumerate)
  then have "sorted_wrt (\<lambda>x y. fst x < fst y) (enumerate n bs)"
    by (simp only: sorted_wrt_map)
  then have "sorted_wrt (\<lambda>x y. fst x < fst y) (selected P n bs)"
    unfolding selected_def by (rule sorted_wrt_filter)
  then show ?thesis by (simp only: sorted_wrt_map)
qed

lemma sorted_qid_extracted:
  "sorted_wrt (<) (map qid (map (\<lambda>(i, b). questionOf opts b i) (selected P n bs)))"
proof -
  have "map qid (map (\<lambda>(i, b). questionOf opts b i) (selected P n bs))
      = map Suc (map fst (selected P n bs))"
    by (auto simp: questionOf_def)
  also have "sorted_wrt (<) (map Suc (map fst (selected P n bs)))"
    using sorted_fst_selected[of P n bs] by (simp add: sorted_wrt_map)
  finally show ?thesis .
qed

subsection \<open>The loop bodies\<close>

lemma parseQuestionBlock_eq:
  "parseQuestionBlock block index questions =
     Some (if wellFormedQuestion block then questions @ [questionOf blockOptions block index]
           else questions)"
proof -
  obtain opts n where loop: "optionLoop block 0 emptyOptions 0 = Some (opts, n)"
    using optionLoop_total[of block 0 emptyOptions 0] by auto
  then show ?thesis
    by (auto simp: parseQuestionBlock_def wellFormedQuestion_def questionOf_def foundOptions_def
        blockOptions_def captured_def split: option.splits)
qed

lemma forEachQuestion_eq:
  "forEachQuestion blocks index questions =
     Some (questions @
       map (\<lambda>(i, b). questionOf blockOptions b i) (selected wellFormedQuestion index blocks))"
  by (induction blocks arbitrary: index questions)
     (simp_all add: parseQuestionBlock_eq selected_Cons)

lemma parseMCQOutput_eq:
  "parseMCQOutput raw =
     Some (map (\<lambda>(i, b). questionOf blockOptions b i)
             (selected wellFormedQuestion 0 (questionBlocks raw)))"
  by (simp add: parseMCQOutput_def forEachQuestion_eq)

lemma parseQuestionBlock2_eq:
  "parseQuestionBlock2 block index questions =
     (if wellFormedQuestion2 block then questions @ [questionOf blockOptions2 block index]
      else questions)"
  by (auto simp: parseQuestionBlock2_def wellFormedQuestion2_def questionOf_def
      blockOptions2_def captured_def split: option.splits)

lemma forEachQuestion2_eq:
  "forEachQuestion2 blocks index questions =
     questions @
       map (\<lambda>(i, b). questionOf blockOptions2 b i) (selected wellFormedQuestion2 index blocks)"
  by (induction blocks arbitrary: index questions)
     (simp_all add: parseQuestionBlock2_eq selected_Cons)

lemma parseMCQOutput2_eq:
  "parseMCQOutput2 raw =
     map (\<lambda>(i, b). questionOf blockOptions2 b i)
       (selected wellFormedQuestion2 0 (questionBlocks2 raw))"
  by (simp add: parseMCQOutput2_def forEachQuestion2_eq)

lemma parseFlashcardBlock_eq:
  "parseFlashcardBlock block index flashcards =
     (if keepsCard block then flashcards @ [cardOf block index] else flashcards)"
  by (auto simp: parseFlashcardBlock_def keepsCard_def cardOf_def captured_def
      split: option.splits)

lemma forEachFlashcard_eq:
  "forEachFlashcard blocks index flashcards =
     flashcards @ map (\<lambda>(i, b). cardOf b i) (selected keepsCard index blocks)"
  by (induction blocks arbitrary: index flashcards)
     (simp_all add: parseFlashcardBlock_eq selected_Cons)

lemma parseFlashcardOutput_eq:
  "parseFlashcardOutput raw =
     map (\<lambda>(i, b). cardOf b i) (selected keepsCard 0 (flashcardBlocks raw))"
  by (simp add: parseFlashcardOutput_def forEachFlashcard_eq)

section \<open>Blocks in a raw text\<close>

















section \<open>The checks of the extractor and the grammar\<close>

text \<open>
  The counter of the loop is the number of matches; the extractor accepts the blocks
  that are well formed for the specification, and besides them those with four option
  lines and a repeated letter.
\<close>

lemma optionLoop_matches:
  "optionLoop block i opts n =
     map_option (\<lambda>ms. (foldl (\<lambda>acc (l, t). acc(l \<mapsto> t)) opts ms, n + length ms))
       (optionMatches block i)"
proof (induction block i opts n rule: optionLoop.induct)
  case (1 block lastIndex opts foundOptions)
  show ?case
  proof (cases "execFrom optionRegex block lastIndex")
    case None
    then show ?thesis
      by (subst optionLoop.simps, subst optionMatches.simps) simp
  next
    case (Some m)
    show ?thesis
    proof (cases "m_end m \<le> lastIndex")
      case True
      with Some show ?thesis
        by (subst optionLoop.simps, subst optionMatches.simps) simp
    next
      case False
      have "optionLoop block (m_end m)
              (opts(matchGroup block m 1 \<mapsto> trim (matchGroup block m 2))) (Suc foundOptions)
            = map_option (\<lambda>ms. (foldl (\<lambda>acc (l, t). acc(l \<mapsto> t))
                 (opts(matchGroup block m 1 \<mapsto> trim (matchGroup block m 2))) ms,
                 Suc foundOptions + length ms)) (optionMatches block (m_end m))"
        using 1[OF Some False] by (simp add: fun_upd_def)
      with Some False show ?thesis
        by (subst optionLoop.simps, subst optionMatches.simps)
           (simp add: option.map_comp comp_def)
    qed
  qed
qed






lemma optionMatches_total: "optionMatches block i \<noteq> None"
  using optionLoop_total[of block i emptyOptions 0] by (simp add: optionLoop_matches)



section \<open>Properties of the MCQ extractor\<close>

subsection \<open>The options of a returned question\<close>

text \<open>
  The extractor counts the matches of the option pattern; it does not compare their
  letters. The one block of \<open>quizWithRepeatedLetter\<close> has the letters A, A, B and C. Both
  extractors return it as question 1: its key A holds the text of the later line, and
  its key D, which no line names, holds the empty text. So a returned question can have
  an empty option, and a block whose letters are not the four letters is not discarded.
\<close>

theorem repeated_letter_block_kept:
  "map_option (map qid) (parseMCQOutput quizWithRepeatedLetter) = Some [1]
   \<and> map_option (map optionTexts) (parseMCQOutput quizWithRepeatedLetter)
       = Some [[Some (js ''y''), Some (js ''z''), Some (js ''w''), Some []]]
   \<and> map qid (parseMCQOutput2 quizWithRepeatedLetter) = [1]
   \<and> map optionTexts (parseMCQOutput2 quizWithRepeatedLetter)
       = [[Some (js ''y''), Some (js ''z''), Some (js ''w''), Some []]]"
  by code_simp

text \<open>
  Claim C1, as the code has it. For every raw input the extractor returns, and every
  question it returns has options with exactly the four keys A, B, C and D; the question
  comes from the block at position \<open>id - 1\<close>, in which the option pattern was found
  exactly four times, and its options are what the loop over that block left. A block in
  which the pattern is not found exactly four times gives no question. The same holds
  for the extractor of the second module, which counts the lines that start with an
  option letter. Nothing is said about the texts: they may be empty.
\<close>

theorem options_have_four_keys:
  "(\<exists>qs. parseMCQOutput raw = Some qs
      \<and> (\<forall>q\<in>set qs. dom (options q) = letters
            \<and> qid q - 1 < length (questionBlocks raw)
            \<and> foundOptions (questionBlocks raw ! (qid q - 1)) = Some 4
            \<and> options q = blockOptions (questionBlocks raw ! (qid q - 1)))
      \<and> (\<forall>i<length (questionBlocks raw).
            foundOptions (questionBlocks raw ! i) \<noteq> Some 4 \<longrightarrow>
            (\<forall>q\<in>set qs. qid q \<noteq> i + 1)))
   \<and> (\<forall>q\<in>set (parseMCQOutput2 raw). dom (options q) = letters
          \<and> qid q - 1 < length (questionBlocks2 raw)
          \<and> length (optionLines (questionBlocks2 raw ! (qid q - 1))) = 4
          \<and> options q = blockOptions2 (questionBlocks2 raw ! (qid q - 1)))
   \<and> (\<forall>i<length (questionBlocks2 raw).
          length (optionLines (questionBlocks2 raw ! i)) \<noteq> 4 \<longrightarrow>
          (\<forall>q\<in>set (parseMCQOutput2 raw). qid q \<noteq> i + 1))"
proof -
  have one: "\<forall>q\<in>set (map (\<lambda>(i, b). questionOf blockOptions b i)
                 (selected wellFormedQuestion 0 (questionBlocks raw))).
        dom (options q) = letters
        \<and> qid q - 1 < length (questionBlocks raw)
        \<and> foundOptions (questionBlocks raw ! (qid q - 1)) = Some 4
        \<and> options q = blockOptions (questionBlocks raw ! (qid q - 1))"
    unfolding extracted_all by (simp add: dom_blockOptions wellFormedQuestion_def)
  have two: "\<forall>i<length (questionBlocks raw).
        foundOptions (questionBlocks raw ! i) \<noteq> Some 4 \<longrightarrow>
        (\<forall>q\<in>set (map (\<lambda>(i, b). questionOf blockOptions b i)
                 (selected wellFormedQuestion 0 (questionBlocks raw))). qid q \<noteq> i + 1)"
    unfolding extracted_all by (auto simp: wellFormedQuestion_def)
  have three: "\<forall>q\<in>set (parseMCQOutput2 raw). dom (options q) = letters
          \<and> qid q - 1 < length (questionBlocks2 raw)
          \<and> length (optionLines (questionBlocks2 raw ! (qid q - 1))) = 4
          \<and> options q = blockOptions2 (questionBlocks2 raw ! (qid q - 1))"
    unfolding parseMCQOutput2_eq extracted_all
    by (simp add: dom_blockOptions2 wellFormedQuestion2_def)
  have four: "\<forall>i<length (questionBlocks2 raw).
          length (optionLines (questionBlocks2 raw ! i)) \<noteq> 4 \<longrightarrow>
          (\<forall>q\<in>set (parseMCQOutput2 raw). qid q \<noteq> i + 1)"
    unfolding parseMCQOutput2_eq extracted_all by (auto simp: wellFormedQuestion2_def)
  from one two three four parseMCQOutput_eq[of raw] show ?thesis by blast
qed

text \<open>
  On \<open>quizWithBrokenBlock\<close> the pattern is found 4, 3 and 4 times: the questions 1 and 3
  are returned with their four texts, and the second block gives nothing.
\<close>

theorem options_have_four_keys_witness:
  "map foundOptions (questionBlocks quizWithBrokenBlock) = [Some 4, Some 3, Some 4]
   \<and> map_option (map qid) (parseMCQOutput quizWithBrokenBlock) = Some [1, 3]
   \<and> map_option (map optionTexts) (parseMCQOutput quizWithBrokenBlock)
       = Some [[Some (js ''a''), Some (js ''b''), Some (js ''c''), Some (js ''d'')],
               [Some (js ''a''), Some (js ''b''), Some (js ''c''), Some (js ''d'')]]
   \<and> map (length \<circ> optionLines) (questionBlocks2 quizWithBrokenBlock) = [4, 3, 4]
   \<and> map qid (parseMCQOutput2 quizWithBrokenBlock) = [1, 3]"
proof -
  have "map foundOptions (questionBlocks quizWithBrokenBlock) = [Some 4, Some 3, Some 4]"
    by code_simp
  moreover have "map_option (map qid) (parseMCQOutput quizWithBrokenBlock) = Some [1, 3]"
    by code_simp
  moreover have "map_option (map optionTexts) (parseMCQOutput quizWithBrokenBlock)
       = Some [[Some (js ''a''), Some (js ''b''), Some (js ''c''), Some (js ''d'')],
               [Some (js ''a''), Some (js ''b''), Some (js ''c''), Some (js ''d'')]]"
    by code_simp
  moreover have "map (length \<circ> optionLines) (questionBlocks2 quizWithBrokenBlock) = [4, 3, 4]"
    by code_simp
  moreover have "map qid (parseMCQOutput2 quizWithBrokenBlock) = [1, 3]"
    by code_simp
  ultimately show ?thesis
    using options_have_four_keys [of quizWithBrokenBlock] by simp
qed

subsection \<open>Well-formed blocks among malformed ones\<close>




subsection \<open>The identifier of a returned question\<close>

text \<open>
  Claim C5. For every raw input, the question at place \<open>k\<close> of the result (counted from
  0) comes from a well-formed block at some position \<open>i\<close> (counted from 0) among the
  blocks offered to the loop, and its identifier is \<open>i + 1\<close>. The place \<open>k\<close> is the number
  of well-formed blocks before position \<open>i\<close>, so the identifier is the place in the
  result, \<open>k + 1\<close>, plus the number of blocks before it that failed: it exceeds the place
  as soon as an earlier block fails. The extractor of the second module does the same.
\<close>

theorem ids_are_block_positions:
  "(\<exists>qs. parseMCQOutput raw = Some qs
      \<and> (\<forall>k<length qs. \<exists>i<length (questionBlocks raw).
            qs ! k = questionOf blockOptions (questionBlocks raw ! i) i
            \<and> qid (qs ! k) = i + 1
            \<and> wellFormedQuestion (questionBlocks raw ! i)
            \<and> length (filter wellFormedQuestion (take i (questionBlocks raw))) = k
            \<and> qid (qs ! k)
                = (k + 1)
                  + length (filter (\<lambda>b. \<not> wellFormedQuestion b) (take i (questionBlocks raw)))))
   \<and> (\<forall>k<length (parseMCQOutput2 raw). \<exists>i<length (questionBlocks2 raw).
          parseMCQOutput2 raw ! k = questionOf blockOptions2 (questionBlocks2 raw ! i) i
          \<and> qid (parseMCQOutput2 raw ! k) = i + 1
          \<and> wellFormedQuestion2 (questionBlocks2 raw ! i)
          \<and> length (filter wellFormedQuestion2 (take i (questionBlocks2 raw))) = k
          \<and> qid (parseMCQOutput2 raw ! k)
              = (k + 1)
                + length (filter (\<lambda>b. \<not> wellFormedQuestion2 b) (take i (questionBlocks2 raw))))"
proof -
  have pos: "\<forall>k<length (map (\<lambda>(i, b). questionOf opts b i) (selected P 0 bs)).
      \<exists>i<length bs.
         map (\<lambda>(i, b). questionOf opts b i) (selected P 0 bs) ! k = questionOf opts (bs ! i) i
         \<and> qid (map (\<lambda>(i, b). questionOf opts b i) (selected P 0 bs) ! k) = i + 1
         \<and> P (bs ! i)
         \<and> length (filter P (take i bs)) = k
         \<and> qid (map (\<lambda>(i, b). questionOf opts b i) (selected P 0 bs) ! k)
             = (k + 1) + length (filter (\<lambda>b. \<not> P b) (take i bs))"
    for opts P and bs :: "jsstring list"
  proof (intro allI impI)
    fix k
    assume "k < length (map (\<lambda>(i, b). questionOf opts b i) (selected P 0 bs))"
    from extracted_nth[OF this] obtain i where i: "i < length bs"
      "map (\<lambda>(i, b). questionOf opts b i) (selected P 0 bs) ! k = questionOf opts (bs ! i) i"
      "P (bs ! i)" "length (filter P (take i bs)) = k"
      "i = k + length (filter (\<lambda>b. \<not> P b) (take i bs))"
      by blast
    then have "qid (map (\<lambda>(i, b). questionOf opts b i) (selected P 0 bs) ! k)
             = (k + 1) + length (filter (\<lambda>b. \<not> P b) (take i bs))"
      by simp
    with i show "\<exists>i<length bs.
         map (\<lambda>(i, b). questionOf opts b i) (selected P 0 bs) ! k = questionOf opts (bs ! i) i
         \<and> qid (map (\<lambda>(i, b). questionOf opts b i) (selected P 0 bs) ! k) = i + 1
         \<and> P (bs ! i)
         \<and> length (filter P (take i bs)) = k
         \<and> qid (map (\<lambda>(i, b). questionOf opts b i) (selected P 0 bs) ! k)
             = (k + 1) + length (filter (\<lambda>b. \<not> P b) (take i bs))"
      by (intro exI[of _ i]) simp
  qed
  from pos[of blockOptions wellFormedQuestion "questionBlocks raw"]
    pos[of blockOptions2 wellFormedQuestion2 "questionBlocks2 raw"]
  show ?thesis
    unfolding parseMCQOutput2_eq parseMCQOutput_eq by blast
qed

text \<open>
  The first block of \<open>quizWithUnmarkedBlock\<close> fails, the second is well formed: the one
  question returned stands first in the result and has the identifier 2.
\<close>

theorem ids_are_block_positions_witness:
  "map wellFormedQuestion (questionBlocks quizWithUnmarkedBlock) = [False, True]
   \<and> map_option (map qid) (parseMCQOutput quizWithUnmarkedBlock) = Some [2]
   \<and> map wellFormedQuestion2 (questionBlocks2 quizWithUnmarkedBlock) = [False, True]
   \<and> map qid (parseMCQOutput2 quizWithUnmarkedBlock) = [2]"
proof -
  have "map wellFormedQuestion (questionBlocks quizWithUnmarkedBlock) = [False, True]"
    by code_simp
  moreover have "map_option (map qid) (parseMCQOutput quizWithUnmarkedBlock) = Some [2]"
    by code_simp
  moreover have "map wellFormedQuestion2 (questionBlocks2 quizWithUnmarkedBlock) = [False, True]"
    by code_simp
  moreover have "map qid (parseMCQOutput2 quizWithUnmarkedBlock) = [2]"
    by code_simp
  ultimately show ?thesis
    using ids_are_block_positions [of quizWithUnmarkedBlock] by simp
qed

section \<open>Properties of the flashcard extractor\<close>

text \<open>
  The block of \<open>cardWithBlankAnswer\<close> has its front and the marker \<open>**Answer:**\<close>, with
  nothing after the marker: both patterns match, the text captured for the back is empty
  after trimming, and the extractor returns no card.
\<close>

theorem blank_answer_card_dropped:
  "flashcardBlocks cardWithBlankAnswer = [cardWithBlankAnswer]
   \<and> match questionRegex cardWithBlankAnswer \<noteq> None
   \<and> match backRegex cardWithBlankAnswer \<noteq> None
   \<and> trim (captured backRegex cardWithBlankAnswer) = []
   \<and> parseFlashcardOutput cardWithBlankAnswer = []"
  by code_simp

text \<open>
  Claim C3, as the code has it. The extractor keeps a block exactly when the front
  pattern and the answer pattern both match and both captured texts are non-empty after
  trimming; every other block is dropped, also one whose answer marker is there with only
  white space after it. The result is the cards of the kept blocks, in their order, so
  every card returned has a non-empty front and a non-empty back.
\<close>

theorem cards_need_front_and_back:
  "parseFlashcardBlock block index flashcards
     = (if keepsCard block then flashcards @ [cardOf block index] else flashcards)
   \<and> parseFlashcardOutput raw
       = map (\<lambda>(i, b). cardOf b i) (selected keepsCard 0 (flashcardBlocks raw))
   \<and> (\<forall>c\<in>set (parseFlashcardOutput raw). front c \<noteq> [] \<and> back' c \<noteq> [])"
proof -
  have "\<forall>c\<in>set (parseFlashcardOutput raw). front c \<noteq> [] \<and> back' c \<noteq> []"
    unfolding parseFlashcardOutput_eq extracted_all by (simp add: keepsCard_def cardOf_def)
  then show ?thesis
    by (simp add: parseFlashcardBlock_eq parseFlashcardOutput_eq)
qed

text \<open>
  Of the two blocks of \<open>cardsWithBlankAnswer\<close> the first, with its blank answer, is
  dropped and the second is returned, with the identifier 2.
\<close>

theorem cards_need_front_and_back_witness:
  "map keepsCard (flashcardBlocks cardsWithBlankAnswer) = [False, True]
   \<and> map fid (parseFlashcardOutput cardsWithBlankAnswer) = [2]
   \<and> map front (parseFlashcardOutput cardsWithBlankAnswer) = [js ''R'']
   \<and> map back' (parseFlashcardOutput cardsWithBlankAnswer) = [js ''r'']"
proof -
  have "map keepsCard (flashcardBlocks cardsWithBlankAnswer) = [False, True]"
    by code_simp
  moreover have "map fid (parseFlashcardOutput cardsWithBlankAnswer) = [2]"
    by code_simp
  moreover have "map front (parseFlashcardOutput cardsWithBlankAnswer) = [js ''R'']"
    by code_simp
  moreover have "map back' (parseFlashcardOutput cardsWithBlankAnswer) = [js ''r'']"
    by code_simp
  ultimately show ?thesis
    using cards_need_front_and_back [of _ _ _ cardsWithBlankAnswer] by simp
qed

section \<open>Properties of the quiz session\<close>

lemmas session_defs =
  loadItems_def initialQuiz_def handleAnswerSelect_def optionClick_def nextQuestion_def
  prevQuestion_def resetQuiz_def

lemmas study_defs =
  loadCards_def initialStudy_def handleFlip_def nextCard_def prevCard_def resetStudy_def

subsection \<open>Selecting an answer twice\<close>

text \<open>In a session an answer is only ever recorded together with the reveal flag.\<close>

lemma answered_is_revealed:
  "reachable s \<Longrightarrow> selectedAnswers s i = Some a \<Longrightarrow> showExplanation s i = Some True"
  by (induction arbitrary: i a rule: reachable.induct) (auto simp: session_defs split: if_splits)

text \<open>
  Claim C2. Selecting an answer is a click on an option button: the handler of the
  button is the one place that calls \<open>handleAnswerSelect\<close>, and it does so only while
  the explanation of the current question is not shown. In every state of a session in
  which an answer is recorded for the current question, a further selection changes
  nothing: the state is the same, and the recorded answer is still the first one.
\<close>

theorem first_click_wins:
  "reachable s \<Longrightarrow> selectedAnswers s (currentQuestion s) = Some a \<Longrightarrow> optionClick letter s = s"
  by (simp add: optionClick_def answered_is_revealed)

theorem first_click_wins_witness:
  "reachable (optionClick (js ''A'') sampleQuiz)
   \<and> selectedAnswers (optionClick (js ''A'') sampleQuiz)
        (currentQuestion (optionClick (js ''A'') sampleQuiz)) = Some (js ''A'')
   \<and> optionClick (js ''B'') (optionClick (js ''A'') sampleQuiz) = optionClick (js ''A'') sampleQuiz
   \<and> selectedAnswers (optionClick (js ''B'') (optionClick (js ''A'') sampleQuiz)) 0
        = Some (js ''A'')"
proof -
  have r: "reachable (optionClick (js ''A'') sampleQuiz)"
    unfolding sampleQuiz_def by (intro reachable.intros) simp
  have a: "selectedAnswers (optionClick (js ''A'') sampleQuiz)
             (currentQuestion (optionClick (js ''A'') sampleQuiz)) = Some (js ''A'')"
    by (simp add: sampleQuiz_def session_defs)
  have z: "currentQuestion (optionClick (js ''A'') sampleQuiz) = 0"
    by (simp add: sampleQuiz_def session_defs)
  from first_click_wins [OF r a, of "js ''B''"] r a z show ?thesis by simp
qed

subsection \<open>The score\<close>

lemma countCorrect_card:
  "countCorrect qs idx answers correct =
     correct + card {i. i < length qs \<and> answers (idx + i) = Some (correctAnswer (qs ! i))}"
proof (induction qs arbitrary: idx correct)
  case Nil
  then show ?case by simp
next
  case (Cons q qs)
  let ?P = "\<lambda>i. i < length (q # qs) \<and> answers (idx + i) = Some (correctAnswer ((q # qs) ! i))"
  let ?Q = "\<lambda>i. i < length qs \<and> answers (Suc idx + i) = Some (correctAnswer (qs ! i))"
  have fin: "finite {i. ?Q i}" by simp
  have parts: "{i. ?P i}
      = (if answers idx = Some (correctAnswer q) then {0} else {}) \<union> Suc ` {i. ?Q i}"
    by (auto simp: image_iff less_Suc_eq_0_disj)
  have "card {i. ?P i} = (if answers idx = Some (correctAnswer q) then 1 else 0) + card {i. ?Q i}"
    unfolding parts using fin by (auto simp: card_image card_insert_if)
  with Cons.IH[of "Suc idx"] show ?case by simp
qed

lemma roundNearestEven_nonneg: "0 \<le> x \<Longrightarrow> 0 \<le> roundNearestEven x"
  by (auto simp: roundNearestEven_def Let_def)

lemma toDouble_nonneg: "0 \<le> x \<Longrightarrow> 0 \<le> toDouble x"
proof (cases "x = 0")
  case True
  then show ?thesis by (simp add: toDouble_def)
next
  case False
  assume "0 \<le> x"
  with False have pos: "0 < x" by simp
  define u :: rat where "u = 2 powi (exponentOf \<bar>x\<bar> - 52)"
  have u: "0 < u" by (simp add: u_def)
  have "0 \<le> \<bar>x\<bar> / u" using u by simp
  then have "0 \<le> roundNearestEven (\<bar>x\<bar> / u)" by (rule roundNearestEven_nonneg)
  then have "0 \<le> (of_int (roundNearestEven (\<bar>x\<bar> / u)) :: rat) * u" using u by simp
  with pos False show ?thesis by (simp add: toDouble_def Let_def u_def)
qed

lemma roundNearestEven_near: "\<bar>of_int (roundNearestEven y) - y\<bar> \<le> 1 / 2"
proof -
  have "of_int \<lfloor>y\<rfloor> \<le> y" and "y < of_int \<lfloor>y\<rfloor> + 1" by linarith+
  then show ?thesis
    by (auto simp: roundNearestEven_def Let_def abs_le_iff)
qed

lemma roundNearestEven_mono_int: "of_int k \<le> y \<Longrightarrow> k \<le> roundNearestEven y"
proof -
  assume "of_int k \<le> y"
  then have "k \<le> \<lfloor>y\<rfloor>" by (simp add: le_floor_iff)
  then show ?thesis by (auto simp: roundNearestEven_def Let_def)
qed

lemma roundNearestEven_le_int: "y \<le> of_int k \<Longrightarrow> roundNearestEven y \<le> k"
proof -
  assume le: "y \<le> of_int k"
  show ?thesis
  proof (cases "y = of_int k")
    case True
    then show ?thesis by (simp add: roundNearestEven_def Let_def)
  next
    case False
    with le have "y < of_int k" by simp
    then have "\<lfloor>y\<rfloor> < k" by (simp add: floor_less_iff)
    then show ?thesis by (auto simp: roundNearestEven_def Let_def)
  qed
qed

text \<open>\<open>exponentOf\<close> is the exponent of the leading bit.\<close>

lemma exponentOf_bounds:
  assumes "0 < x"
  shows "2 powi exponentOf x \<le> x \<and> x < 2 powi (exponentOf x + 1)"
proof -
  obtain a b where q: "quotient_of x = (a, b)" by (cases "quotient_of x")
  then have b: "0 < b" by (rule quotient_of_denom_pos)
  from q have x: "x = of_int a / of_int b" by (rule quotient_of_div)
  with assms b have a: "0 < a" by (simp add: zero_less_divide_iff)
  define la lb where "la = bitlen a" and "lb = bitlen b"
  from bitlen_bounds[OF a] have a_lo: "2 ^ nat (la - 1) \<le> a" and a_hi: "a < 2 ^ nat la"
    by (simp_all add: la_def)
  from bitlen_bounds[OF b] have b_lo: "2 ^ nat (lb - 1) \<le> b" and b_hi: "b < 2 ^ nat lb"
    by (simp_all add: lb_def)
  from a have la: "1 \<le> la" by (simp add: la_def bitlen_alt_def)
  from b have lb: "1 \<le> lb" by (simp add: lb_def bitlen_alt_def)
  have pa_lo: "(2::rat) powi (la - 1) \<le> of_int a"
  proof -
    have "(2::rat) powi (la - 1) = of_int (2 ^ nat (la - 1))" using la by (simp add: power_int_def)
    also have "\<dots> \<le> of_int a" using a_lo by (subst of_int_le_iff)
    finally show ?thesis .
  qed
  have pa_hi: "of_int a < (2::rat) powi la"
  proof -
    have "(of_int a :: rat) < of_int (2 ^ nat la)" using a_hi by (subst of_int_less_iff)
    also have "\<dots> = 2 powi la" using la by (simp add: power_int_def)
    finally show ?thesis .
  qed
  have pb_lo: "(2::rat) powi (lb - 1) \<le> of_int b"
  proof -
    have "(2::rat) powi (lb - 1) = of_int (2 ^ nat (lb - 1))" using lb by (simp add: power_int_def)
    also have "\<dots> \<le> of_int b" using b_lo by (subst of_int_le_iff)
    finally show ?thesis .
  qed
  have pb_hi: "of_int b < (2::rat) powi lb"
  proof -
    have "(of_int b :: rat) < of_int (2 ^ nat lb)" using b_hi by (subst of_int_less_iff)
    also have "\<dots> = 2 powi lb" using lb by (simp add: power_int_def)
    finally show ?thesis .
  qed
  have bpos: "(0::rat) < of_int b" using b by simp
  have lower: "(2::rat) powi (la - lb - 1) \<le> x"
  proof -
    have "(2::rat) powi (la - lb - 1) * of_int b \<le> 2 powi (la - lb - 1) * 2 powi lb"
      using pb_hi by (intro mult_left_mono) simp_all
    also have "\<dots> = 2 powi (la - 1)"
      by (simp add: power_int_add[symmetric])
    also have "\<dots> \<le> of_int a" by (rule pa_lo)
    finally show ?thesis using bpos by (simp add: x pos_le_divide_eq)
  qed
  have upper: "x < (2::rat) powi (la - lb + 1)"
  proof -
    have "of_int a < (2::rat) powi la" by (rule pa_hi)
    also have "\<dots> = 2 powi (la - lb + 1) * 2 powi (lb - 1)"
      by (simp add: power_int_add[symmetric])
    also have "\<dots> \<le> 2 powi (la - lb + 1) * of_int b"
      using pb_lo by (intro mult_left_mono) simp_all
    finally show ?thesis using bpos by (simp add: x pos_divide_less_eq)
  qed
  show ?thesis
  proof (cases "(2::rat) powi (la - lb) \<le> x")
    case True
    then have "exponentOf x = la - lb" by (simp add: exponentOf_def q la_def lb_def)
    with True upper show ?thesis by simp
  next
    case False
    then have "exponentOf x = la - lb - 1" by (simp add: exponentOf_def q la_def lb_def)
    with False lower show ?thesis by simp
  qed
qed

text \<open>
  \<open>toDouble\<close> rounds to nearest: the result has a mantissa of 53 bits at the exponent of
  \<open>x\<close>, and it is at most half a unit in the last place away from \<open>x\<close>.
\<close>

lemma toDouble_nearest:
  assumes "0 < x"
  defines "u \<equiv> 2 powi (exponentOf x - 52)"
  shows "\<exists>m. toDouble x = of_int m * u \<and> 2 ^ 52 \<le> m \<and> m \<le> 2 ^ 53"
    and "\<bar>toDouble x - x\<bar> \<le> u / 2"
proof -
  have u: "0 < u" by (simp add: u_def)
  define m where "m = roundNearestEven (x / u)"
  have td: "toDouble x = of_int m * u"
    using assms(1) by (simp add: toDouble_def Let_def m_def u_def)
  from exponentOf_bounds[OF assms(1)]
  have lo: "2 powi exponentOf x \<le> x" and hi: "x < 2 powi (exponentOf x + 1)" by simp_all
  have e52: "(2::rat) powi exponentOf x = 2 ^ 52 * u"
    by (simp add: u_def power_int_diff)
  have e53: "(2::rat) powi (exponentOf x + 1) = 2 ^ 53 * u"
    by (simp add: u_def power_int_diff power_int_add)
  have "of_int (2 ^ 52) \<le> x / u" using lo u by (simp add: e52 pos_le_divide_eq)
  then have m_lo: "2 ^ 52 \<le> m" unfolding m_def by (rule roundNearestEven_mono_int)
  have "x / u \<le> of_int (2 ^ 53)" using hi u by (simp add: e53 pos_divide_le_eq)
  then have m_hi: "m \<le> 2 ^ 53" unfolding m_def by (rule roundNearestEven_le_int)
  from td m_lo m_hi show "\<exists>m. toDouble x = of_int m * u \<and> 2 ^ 52 \<le> m \<and> m \<le> 2 ^ 53" by blast
  have "\<bar>of_int m - x / u\<bar> \<le> 1 / 2" unfolding m_def by (rule roundNearestEven_near)
  then have "\<bar>of_int m - x / u\<bar> * u \<le> 1 / 2 * u" using u by (intro mult_right_mono) simp_all
  moreover have "\<bar>of_int m - x / u\<bar> * u = \<bar>of_int m * u - x\<bar>"
  proof -
    have "\<bar>of_int m * u - x\<bar> = \<bar>(of_int m - x / u) * u\<bar>"
      using u by (simp add: left_diff_distrib)
    also have "\<dots> = \<bar>of_int m - x / u\<bar> * u"
      using u by (simp add: abs_mult)
    finally show ?thesis by simp
  qed
  ultimately show "\<bar>toDouble x - x\<bar> \<le> u / 2" by (simp add: td)
qed

lemma Math_round_nonneg: "0 \<le> x \<Longrightarrow> Math_round x = roundHalfAwayFromZero x"
  by (simp add: Math_round_def roundHalfAwayFromZero_def)

text \<open>
  Rounding to a double changes a non-negative number \<open>x\<close> by at most \<open>x / 2 ^ 53\<close>, so the
  percentage of the code is within \<open>300 / 2 ^ 53\<close> of the exact one.
\<close>

lemma toDouble_relative:
  assumes "0 \<le> x"
  shows "\<bar>toDouble x - x\<bar> \<le> x / 2 ^ 53"
proof (cases "x = 0")
  case True
  then show ?thesis by (simp add: toDouble_def)
next
  case False
  with assms have pos: "0 < x" by simp
  have "(2::rat) powi (exponentOf x - 52) / 2 = 2 powi exponentOf x / 2 ^ 53"
    by (simp add: power_int_diff)
  also have "\<dots> \<le> x / 2 ^ 53"
    using exponentOf_bounds[OF pos] by (simp add: divide_right_mono)
  finally show ?thesis using toDouble_nearest(2)[OF pos] by simp
qed

lemma percentage_error:
  assumes "0 \<le> x" "x \<le> 1" and that: "x = a / b"
  shows "\<bar>jsTimes (jsDivide a b) 100 - x * 100\<bar> \<le> 300 / 2 ^ 53"
proof -
  define q where "q = toDouble x"
  define e :: rat where "e = 1 / 2 ^ 53"
  have e: "0 < e" "e \<le> 1" by (simp_all add: e_def)
  have rel: "\<bar>toDouble z - z\<bar> \<le> z * e" if "0 \<le> z" for z
    using toDouble_relative[OF that] by (simp add: e_def)
  have q0: "0 \<le> q" unfolding q_def using assms(1) by (rule toDouble_nonneg)
  have "\<bar>q - x\<bar> \<le> x * e" unfolding q_def using assms(1) by (rule rel)
  also have "\<dots> \<le> 1 * e" using assms(2) e(1) by (intro mult_right_mono) simp_all
  finally have qx: "\<bar>q - x\<bar> \<le> e" by simp
  then have q2: "q \<le> 2" using assms(2) e(2) by (simp add: abs_le_iff)
  have "0 \<le> q * 100" using q0 by simp
  then have "\<bar>toDouble (q * 100) - q * 100\<bar> \<le> q * 100 * e" by (rule rel)
  also have "\<dots> \<le> 2 * 100 * e" using q2 e(1) by (intro mult_right_mono) simp_all
  finally have yq: "\<bar>toDouble (q * 100) - q * 100\<bar> \<le> 200 * e" by simp
  define d1 where "d1 = toDouble (q * 100) - q * 100"
  define d2 where "d2 = q - x"
  have split: "toDouble (q * 100) - x * 100 = d1 + d2 * 100"
    by (simp add: d1_def d2_def algebra_simps)
  have "\<bar>d1 + d2 * 100\<bar> \<le> \<bar>d1\<bar> + \<bar>d2 * 100\<bar>" by (rule abs_triangle_ineq)
  also have "\<bar>d2 * 100\<bar> = \<bar>d2\<bar> * 100" by (simp add: abs_mult)
  also have "\<bar>d1\<bar> + \<bar>d2\<bar> * 100 \<le> 200 * e + e * 100"
    using yq qx unfolding d1_def d2_def by (intro add_mono mult_right_mono) simp_all
  finally have "\<bar>toDouble (q * 100) - x * 100\<bar> \<le> 300 * e" unfolding split by simp
  then show ?thesis using that by (simp add: jsTimes_def jsDivide_def q_def e_def)
qed

text \<open>
  Rounding a number near \<open>x\<close>, where \<open>2 N x\<close> is an integer: the result is that of \<open>x\<close>,
  or, when \<open>x\<close> is halfway between two integers, possibly the integer below.
\<close>

lemma round_near:
  fixes x y :: rat and N M :: int
  assumes N: "0 < N" and M: "of_int M = of_int (2 * N) * (x + 1 / 2)"
    and near: "\<bar>y - x\<bar> < 1 / of_int (2 * N)"
  shows "\<lfloor>y + 1 / 2\<rfloor> = \<lfloor>x + 1 / 2\<rfloor>
         \<or> (\<lfloor>y + 1 / 2\<rfloor> = \<lfloor>x + 1 / 2\<rfloor> - 1 \<and> x + 1 / 2 = of_int \<lfloor>x + 1 / 2\<rfloor>)"
proof -
  define z where "z = x + 1 / 2"
  define k where "k = \<lfloor>z\<rfloor>"
  define \<delta> :: rat where "\<delta> = 1 / of_int (2 * N)"
  have N2: "(0::rat) < of_int (2 * N)" using N by simp
  have d0: "0 < \<delta>" unfolding \<delta>_def using N2 by simp
  have d1: "\<delta> \<le> 1 / 2"
  proof -
    have "(2::rat) \<le> of_int (2 * N)" using N by simp
    then show ?thesis unfolding \<delta>_def by (simp add: field_simps)
  qed
  have lo: "z - \<delta> < y + 1 / 2" and hi: "y + 1 / 2 < z + \<delta>"
    using near by (simp_all add: z_def \<delta>_def abs_less_iff)
  have kz: "of_int k \<le> z" "z < of_int k + 1" unfolding k_def by linarith+
  show ?thesis
  proof (cases "z = of_int k")
    case True
    have "\<lfloor>y + 1 / 2\<rfloor> = k \<or> \<lfloor>y + 1 / 2\<rfloor> = k - 1"
    proof (cases "of_int k \<le> y + 1 / 2")
      case True
      then have "\<lfloor>y + 1 / 2\<rfloor> = k" using hi d1 \<open>z = of_int k\<close> by (intro floor_unique) simp_all
      then show ?thesis by simp
    next
      case False
      then have "\<lfloor>y + 1 / 2\<rfloor> = k - 1" using lo d1 \<open>z = of_int k\<close> by (intro floor_unique) simp_all
      then show ?thesis by simp
    qed
    with True show ?thesis by (auto simp: z_def k_def)
  next
    case False
    with kz have lt: "of_int k < z" by simp
    have Mz: "of_int M = of_int (2 * N) * z" using M by (simp add: z_def)
    have "(of_int (2 * N * k) :: rat) < of_int M"
      unfolding Mz using lt N2 by (simp add: mult_strict_left_mono)
    then have "2 * N * k < M" by (simp only: of_int_less_iff)
    then have "2 * N * k + 1 \<le> M" by simp
    then have "(of_int (2 * N * k + 1) :: rat) \<le> of_int M" by (simp only: of_int_le_iff)
    then have "of_int (2 * N) * of_int k + 1 \<le> of_int (2 * N) * z" unfolding Mz by simp
    then have a: "of_int k + \<delta> \<le> z"
      using N2 unfolding \<delta>_def by (simp add: field_simps)
    have "(of_int M :: rat) < of_int (2 * N * (k + 1))"
      unfolding Mz using kz(2) N2 by (simp add: mult_strict_left_mono)
    then have "M < 2 * N * (k + 1)" by (simp only: of_int_less_iff)
    then have "M + 1 \<le> 2 * N * (k + 1)" by simp
    then have "(of_int (M + 1) :: rat) \<le> of_int (2 * N * (k + 1))" by (simp only: of_int_le_iff)
    then have "of_int (2 * N) * z + 1 \<le> of_int (2 * N) * (of_int k + 1)" unfolding of_int_add Mz by simp
    then have b: "z + \<delta> \<le> of_int k + 1"
      using N2 unfolding \<delta>_def by (simp add: field_simps)
    have "\<lfloor>y + 1 / 2\<rfloor> = k" using lo hi a b by (intro floor_unique) simp_all
    then show ?thesis by (simp add: z_def k_def)
  qed
qed

lemma calculateScore_le: "calculateScore s \<le> length (mcqData s)"
proof -
  have "card {i. i < length (mcqData s)
            \<and> selectedAnswers s i = Some (correctAnswer (mcqData s ! i))}
        \<le> card {i. i < length (mcqData s)}"
    by (intro card_mono) auto
  then show ?thesis by (simp add: calculateScore_def countCorrect_card)
qed

lemma reachable_answerAll: "reachable s \<Longrightarrow> reachable (answerAll ls s)"
  by (induction ls arbitrary: s) (simp_all add: reachable.by_click reachable.by_next)

text \<open>
  The percentage of the code against the exact one: they agree, except that on a tie of
  the exact value the code may give the integer below.
\<close>

lemma percentage_near_exact:
  fixes k n :: nat
  assumes n: "0 < n" "n < 2 ^ 32" and k: "k \<le> n"
  defines "v \<equiv> (of_nat k / of_nat n * 100 :: rat)"
  defines "y \<equiv> jsTimes (jsDivide (of_nat k) (of_nat n)) 100"
  shows "Math_round y = roundHalfAwayFromZero v
         \<or> (Math_round y = roundHalfAwayFromZero v - 1
            \<and> v + 1 / 2 = of_int (roundHalfAwayFromZero v))"
proof -
  have npos: "(0::rat) < of_nat n" using n(1) by simp
  have x0: "(0::rat) \<le> of_nat k / of_nat n" by simp
  have x1: "(of_nat k / of_nat n :: rat) \<le> 1" using k npos by (simp add: pos_divide_le_eq)
  have err: "\<bar>y - v\<bar> \<le> 300 / 2 ^ 53"
    unfolding y_def v_def by (rule percentage_error[OF x0 x1 refl])
  have "int n < 2 ^ 32" using n(2) by simp
  then have "2 * int n < 2 ^ 33" by simp
  then have "(of_int (2 * int n) :: rat) < of_int (2 ^ 33)" by (simp only: of_int_less_iff)
  then have lt: "(of_int (2 * int n) :: rat) < 2 ^ 33" by simp
  have pos2: "(0::rat) < of_int (2 * int n)" using n(1) by simp
  have "(300 :: rat) / 2 ^ 53 < 1 / 2 ^ 33" by simp
  also have "\<dots> < 1 / of_int (2 * int n)"
    using lt pos2 by (intro divide_strict_left_mono) simp_all
  finally have near: "\<bar>y - v\<bar> < 1 / of_int (2 * int n)" using err by simp
  have M: "(of_int (200 * int k + int n) :: rat) = of_int (2 * int n) * (v + 1 / 2)"
    using npos by (simp add: v_def field_simps)
  have N: "0 < int n" using n(1) by simp
  have v0: "0 \<le> v" by (simp add: v_def)
  from round_near[OF N M near] v0 show ?thesis
    by (simp add: Math_round_def roundHalfAwayFromZero_def)
qed

text \<open>
  In \<open>finishedQuiz\<close>, 23 answers out of 40 are correct. The exact percentage is 57.5,
  which rounds to 58; the quotient of the code is the double next to 0.575 and its
  product with 100 is a double below 57.5, so the code shows 57.
\<close>

theorem exact_percentage_differs:
  "reachable finishedQuiz \<and> quizCompleted finishedQuiz
   \<and> length (mcqData finishedQuiz) = 40 \<and> calculateScore finishedQuiz = 23
   \<and> percentage finishedQuiz = Some 57
   \<and> roundHalfAwayFromZero
        (of_nat (calculateScore finishedQuiz) / of_nat (length (mcqData finishedQuiz)) * 100) = 58"
proof -
  have "reachable finishedQuiz"
    unfolding finishedQuiz_def by (intro reachable_answerAll reachable.by_load) simp
  moreover have "quizCompleted finishedQuiz \<and> length (mcqData finishedQuiz) = 40
      \<and> calculateScore finishedQuiz = 23 \<and> percentage finishedQuiz = Some 57
      \<and> roundHalfAwayFromZero
        (of_nat (calculateScore finishedQuiz) / of_nat (length (mcqData finishedQuiz)) * 100) = 58"
    by code_simp
  ultimately show ?thesis by (rule conjI)
qed

text \<open>
  Claim C6, as the code has it. The score is the number of positions of the quiz whose
  recorded answer is the correct answer of the question there; with no answer recorded
  it is 0. For a quiz with at least one question (and fewer than \<open>2 ^ 32\<close>, the bound of
  an array), the percentage is the exact value of \<open>score / length * 100\<close> rounded to the
  nearest integer with a half rounded away from zero, except that it may be one less
  when the exact value is halfway between two integers. Neither depends on whether the
  quiz is completed: both are defined in every phase.
\<close>

theorem score_and_percentage:
  "calculateScore s =
     card {i. i < length (mcqData s) \<and> selectedAnswers s i = Some (correctAnswer (mcqData s ! i))}
   \<and> (mcqData s \<noteq> [] \<and> length (mcqData s) < 2 ^ 32 \<longrightarrow>
        percentage s =
          Some (roundHalfAwayFromZero
                 (of_nat (calculateScore s) / of_nat (length (mcqData s)) * 100))
        \<or> (percentage s =
             Some (roundHalfAwayFromZero
                    (of_nat (calculateScore s) / of_nat (length (mcqData s)) * 100) - 1)
           \<and> (of_nat (calculateScore s) / of_nat (length (mcqData s)) * 100 + 1 / 2 :: rat)
               = of_int (roundHalfAwayFromZero
                    (of_nat (calculateScore s) / of_nat (length (mcqData s)) * 100))))
   \<and> (selectedAnswers s = Map.empty \<longrightarrow> calculateScore s = 0)
   \<and> calculateScore (s\<lparr>quizCompleted := b\<rparr>) = calculateScore s
   \<and> percentage (s\<lparr>quizCompleted := b\<rparr>) = percentage s"
proof -
  have card_eq: "calculateScore s =
     card {i. i < length (mcqData s) \<and> selectedAnswers s i = Some (correctAnswer (mcqData s ! i))}"
    by (simp add: calculateScore_def countCorrect_card)
  have pct: "mcqData s \<noteq> [] \<and> length (mcqData s) < 2 ^ 32 \<longrightarrow>
        percentage s =
          Some (roundHalfAwayFromZero
                 (of_nat (calculateScore s) / of_nat (length (mcqData s)) * 100))
        \<or> (percentage s =
             Some (roundHalfAwayFromZero
                    (of_nat (calculateScore s) / of_nat (length (mcqData s)) * 100) - 1)
           \<and> (of_nat (calculateScore s) / of_nat (length (mcqData s)) * 100 + 1 / 2 :: rat)
               = of_int (roundHalfAwayFromZero
                    (of_nat (calculateScore s) / of_nat (length (mcqData s)) * 100)))"
  proof (intro impI)
    assume a: "mcqData s \<noteq> [] \<and> length (mcqData s) < 2 ^ 32"
    then have n: "0 < length (mcqData s)" "length (mcqData s) < 2 ^ 32" by simp_all
    from a have p: "percentage s = Some (Math_round
        (jsTimes (jsDivide (of_nat (calculateScore s)) (of_nat (length (mcqData s)))) 100))"
      by (simp add: percentage_def)
    from percentage_near_exact[OF n calculateScore_le] show "percentage s =
          Some (roundHalfAwayFromZero
                 (of_nat (calculateScore s) / of_nat (length (mcqData s)) * 100))
        \<or> (percentage s =
             Some (roundHalfAwayFromZero
                    (of_nat (calculateScore s) / of_nat (length (mcqData s)) * 100) - 1)
           \<and> (of_nat (calculateScore s) / of_nat (length (mcqData s)) * 100 + 1 / 2 :: rat)
               = of_int (roundHalfAwayFromZero
                    (of_nat (calculateScore s) / of_nat (length (mcqData s)) * 100)))"
      unfolding p by (simp only: option.inject)
  qed
  have zero: "selectedAnswers s = Map.empty \<longrightarrow> calculateScore s = 0"
    by (simp add: card_eq)
  have frame: "calculateScore (s\<lparr>quizCompleted := b\<rparr>) = calculateScore s"
    by (simp add: calculateScore_def)
  have frame2: "percentage (s\<lparr>quizCompleted := b\<rparr>) = percentage s"
    by (simp add: percentage_def calculateScore_def)
  from card_eq pct zero frame frame2 show ?thesis by (intro conjI)
qed

text \<open>
  In \<open>sampleQuiz\<close>, answering C to the first question and A to the second gives one
  correct answer out of three, 33 per cent as the exact value rounds, before the quiz is
  completed. In \<open>finishedQuiz\<close> the exact value 57.5 is halfway and the percentage is 57,
  one less than 58. With no answer the score is 0.
\<close>

theorem score_and_percentage_witness:
  "mcqData (optionClick (js ''A'') (nextQuestion (optionClick (js ''C'') sampleQuiz))) \<noteq> []
   \<and> length (mcqData (optionClick (js ''A'') (nextQuestion (optionClick (js ''C'') sampleQuiz))))
       < 2 ^ 32
   \<and> calculateScore
        (optionClick (js ''A'') (nextQuestion (optionClick (js ''C'') sampleQuiz))) = 1
   \<and> percentage
        (optionClick (js ''A'') (nextQuestion (optionClick (js ''C'') sampleQuiz))) = Some 33
   \<and> roundHalfAwayFromZero (1 / 3 * 100) = 33
   \<and> mcqData finishedQuiz \<noteq> [] \<and> length (mcqData finishedQuiz) < 2 ^ 32
   \<and> percentage finishedQuiz = Some (58 - 1)
   \<and> (23 / 40 * 100 + 1 / 2 :: rat) = of_int 58
   \<and> selectedAnswers sampleQuiz = Map.empty
   \<and> calculateScore sampleQuiz = 0"
proof -
  let ?s = "optionClick (js ''A'') (nextQuestion (optionClick (js ''C'') sampleQuiz))"
  have len: "length (mcqData ?s) = 3" and empty: "selectedAnswers sampleQuiz = Map.empty"
    by (simp_all add: sampleQuiz_def session_defs)
  have score: "calculateScore ?s = 1" and pct: "percentage ?s = Some 33"
    and exact: "roundHalfAwayFromZero (1 / 3 * 100) = 33"
    by code_simp+
  have fin: "length (mcqData finishedQuiz) = 40" "calculateScore finishedQuiz = 23"
    "percentage finishedQuiz = Some 57" "roundHalfAwayFromZero (23 / 40 * 100) = 58"
    by code_simp+
  from len have ne: "mcqData ?s \<noteq> []" by auto
  from fin(1) have ne': "mcqData finishedQuiz \<noteq> []" by auto
  from score_and_percentage [of ?s] score_and_percentage [of finishedQuiz]
    score_and_percentage [of sampleQuiz] len empty score pct exact fin ne ne'
  show ?thesis by simp
qed

subsection \<open>Going back\<close>

text \<open>
  Claim C7. In a state whose current position is greater than 0, going back lowers the
  position by one and leaves the recorded answers and the reveal flags (in a quiz) and
  the set of reviewed cards (in a deck) unchanged. In particular, after three items are
  loaded and the first is answered (or flipped), going forward twice and back twice
  ends at position 0 with the answer and the flag of position 0 still there.
\<close>

theorem retreat_keeps_answers:
  "(0 < currentQuestion s \<longrightarrow>
      currentQuestion (prevQuestion s) = currentQuestion s - 1
      \<and> selectedAnswers (prevQuestion s) = selectedAnswers s
      \<and> showExplanation (prevQuestion s) = showExplanation s)
   \<and> (0 < currentCard t \<longrightarrow>
      currentCard (prevCard t) = currentCard t - 1
      \<and> reviewedCards (prevCard t) = reviewedCards t)
   \<and> (let s0 = handleAnswerSelect letter (loadItems [q1, q2, q3] initialQuiz);
           s4 = prevQuestion (prevQuestion (nextQuestion (nextQuestion s0)))
       in currentQuestion (nextQuestion (nextQuestion s0)) = 2
          \<and> currentQuestion s4 = 0
          \<and> selectedAnswers s4 0 = Some letter
          \<and> showExplanation s4 0 = Some True)
   \<and> (let t0 = handleFlip (loadCards [c1, c2, c3] initialStudy);
           t4 = prevCard (prevCard (nextCard (nextCard t0)))
       in currentCard t4 = 0 \<and> 0 \<in> reviewedCards t4)"
  by (simp add: session_defs study_defs Let_def)

theorem retreat_keeps_answers_witness:
  "0 < currentQuestion (nextQuestion (handleAnswerSelect (js ''A'') sampleQuiz))
   \<and> currentQuestion (prevQuestion (nextQuestion (handleAnswerSelect (js ''A'') sampleQuiz))) = 0
   \<and> selectedAnswers (prevQuestion (nextQuestion (handleAnswerSelect (js ''A'') sampleQuiz))) 0
       = Some (js ''A'')
   \<and> showExplanation (prevQuestion (nextQuestion (handleAnswerSelect (js ''A'') sampleQuiz))) 0
       = Some True
   \<and> 0 < currentCard (nextCard (handleFlip sampleStudy))
   \<and> currentCard (prevCard (nextCard (handleFlip sampleStudy))) = 0
   \<and> reviewedCards (prevCard (nextCard (handleFlip sampleStudy))) = {0}"
  using retreat_keeps_answers [of "nextQuestion (handleAnswerSelect (js ''A'') sampleQuiz)"
      "nextCard (handleFlip sampleStudy)"]
  by (simp add: sampleQuiz_def sampleStudy_def session_defs study_defs)

subsection \<open>Loading nothing\<close>

text \<open>
  Loading an empty sequence does not leave the state as it was: the flag \<open>loading\<close> is
  set before and cleared after, and the error text is empty before and set after.
\<close>

theorem empty_load_clears_loading:
  "loading initialQuiz \<and> \<not> loading (loadItems [] initialQuiz)
   \<and> error initialQuiz = [] \<and> error (loadItems [] initialQuiz) \<noteq> []
   \<and> loadItems [] initialQuiz \<noteq> initialQuiz
   \<and> loadingCards initialStudy \<and> \<not> loadingCards (loadCards [] initialStudy)"
  by (auto simp: session_defs study_defs js_def)

text \<open>
  Claim C9, as the code has it. Loading an empty sequence of items records an error
  message and loads nothing: the items, the position, the answers, the reveal flags and
  the completion flag stay as they were. The flag \<open>loading\<close> is cleared, so the session
  leaves the loading phase and the error is what the component shows. The deck of
  flashcards does the same.
\<close>

theorem empty_load_reports_error:
  "loadItems [] s =
     s\<lparr>error := js ''Could not parse quiz questions. Please try generating the quiz again.'',
       loading := False\<rparr>
   \<and> mcqData (loadItems [] s) = mcqData s
   \<and> currentQuestion (loadItems [] s) = currentQuestion s
   \<and> selectedAnswers (loadItems [] s) = selectedAnswers s
   \<and> showExplanation (loadItems [] s) = showExplanation s
   \<and> quizCompleted (loadItems [] s) = quizCompleted s
   \<and> error (loadItems [] s) \<noteq> []
   \<and> \<not> loading (loadItems [] s)
   \<and> loadCards [] t =
     t\<lparr>errorCards :=
          js ''Could not parse flashcard data. Please try generating the flashcards again.'',
       loadingCards := False\<rparr>
   \<and> errorCards (loadCards [] t) \<noteq> []
   \<and> \<not> loadingCards (loadCards [] t)"
  by (simp add: loadItems_def loadCards_def js_def)

section \<open>Properties of the flashcard session\<close>

subsection \<open>Reviewed cards\<close>

lemma studyStep_reviewed: "e \<noteq> Reset \<Longrightarrow> reviewedCards s \<subseteq> reviewedCards (studyStep e s)"
  by (cases e) (auto simp: study_defs)

lemma study_reviewed: "Reset \<notin> set es \<Longrightarrow> reviewedCards s \<subseteq> reviewedCards (study es s)"
proof (induction es arbitrary: s)
  case Nil
  then show ?case by simp
next
  case (Cons e es)
  from Cons.prems have "e \<noteq> Reset" by auto
  then have "reviewedCards s \<subseteq> reviewedCards (studyStep e s)"
    by (rule studyStep_reviewed)
  also have "\<dots> \<subseteq> reviewedCards (study es (studyStep e s))"
    using Cons by simp
  finally show ?case by simp
qed

text \<open>
  Claim C8. A flip that shows the back adds the current position to the set of reviewed
  cards, and a flip that shows the front leaves the set as it is. Over any sequence of
  flips and moves without a reset the set only grows. A reset empties it.
\<close>

theorem reviewed_monotone:
  "(\<not> isFlipped s \<longrightarrow> reviewedCards (handleFlip s) = insert (currentCard s) (reviewedCards s))
   \<and> (isFlipped s \<longrightarrow> reviewedCards (handleFlip s) = reviewedCards s)
   \<and> (Reset \<notin> set es \<longrightarrow> reviewedCards s \<subseteq> reviewedCards (study es s))
   \<and> reviewedCards (resetStudy s) = {}"
  using study_reviewed [of es s] by (simp add: handleFlip_def resetStudy_def)

theorem reviewed_monotone_witness:
  "\<not> isFlipped sampleStudy
   \<and> reviewedCards (handleFlip sampleStudy) = {0}
   \<and> Reset \<notin> set [Flip, Flip, Next, Flip, Prev, Flip]
   \<and> 0 \<in> reviewedCards (study [Flip, Flip, Next, Flip, Prev, Flip] (handleFlip sampleStudy))
   \<and> reviewedCards (resetStudy (handleFlip sampleStudy)) = {}"
  using reviewed_monotone [of sampleStudy "[Flip, Flip, Next, Flip, Prev, Flip]"]
    reviewed_monotone [of "handleFlip sampleStudy" "[Flip, Flip, Next, Flip, Prev, Flip]"]
  by (auto simp: sampleStudy_def loadCards_def initialStudy_def)

subsection \<open>The side shown after a move\<close>

text \<open>
  Claim C10. Whenever going to the next or to the previous card changes the current
  position, the card shown is not flipped: before the last card the next card is shown
  from its front, and after the first card so is the previous one.
\<close>

theorem navigation_shows_front:
  "(currentCard (nextCard s) \<noteq> currentCard s \<longrightarrow> \<not> isFlipped (nextCard s))
   \<and> (currentCard (prevCard s) \<noteq> currentCard s \<longrightarrow> \<not> isFlipped (prevCard s))
   \<and> (int (currentCard s) < int (length (flashcardData s)) - 1 \<longrightarrow>
        currentCard (nextCard s) = currentCard s + 1 \<and> \<not> isFlipped (nextCard s))
   \<and> (0 < currentCard s \<longrightarrow>
        currentCard (prevCard s) = currentCard s - 1 \<and> \<not> isFlipped (prevCard s))"
  by (simp add: nextCard_def prevCard_def)

theorem navigation_shows_front_witness:
  "isFlipped (handleFlip sampleStudy)
   \<and> currentCard (nextCard (handleFlip sampleStudy)) = 1
   \<and> \<not> isFlipped (nextCard (handleFlip sampleStudy))
   \<and> isFlipped (handleFlip (nextCard (handleFlip sampleStudy)))
   \<and> currentCard (prevCard (handleFlip (nextCard (handleFlip sampleStudy)))) = 0
   \<and> \<not> isFlipped (prevCard (handleFlip (nextCard (handleFlip sampleStudy))))"
  using navigation_shows_front [of "handleFlip sampleStudy"]
    navigation_shows_front [of "handleFlip (nextCard (handleFlip sampleStudy))"]
  by (simp add: sampleStudy_def study_defs)

end
